theory Spec2Isabelle
  imports Complex_Main
begin

section \<open>The poetic landscape: data model\<close>

text \<open>
  The component \<open>PoeticLandscape\<close> keeps its simulation state in React refs and
  redraws a canvas once per animation frame. JavaScript numbers are modelled as real
  numbers; the decay scenarios, which end on a comparison with 0 or on an exact value,
  are replayed in IEEE double arithmetic in the last sections. The frame counter and
  the canvas dimensions, which only ever hold non-negative integers, are natural numbers.
  The fields of \<open>Particle\<close>, \<open>Ripple\<close> and \<open>MountainLayerConfig\<close> (types.ts)
  carry a prefix, since several of them share the names \<open>x\<close>, \<open>y\<close>, \<open>color\<close>
  and \<open>opacity\<close>.
\<close>

record particle =
  p_x :: real
  p_y :: real
  p_vx :: real
  p_vy :: real
  p_size :: real
  p_life :: real
  p_maxLife :: real
  p_color :: string

record ripple =
  r_x :: real
  r_y :: real
  r_radius :: real
  r_maxRadius :: real
  r_opacity :: real
  r_color :: string

record layer =
  l_color :: string
  l_strokeColor :: string
  l_fillGradientStart :: string
  l_fillGradientEnd :: string
  l_yOffset :: real
  l_amplitude :: real
  l_frequency :: real
  l_speed :: real
  l_opacity :: real
  l_noise :: real

text \<open>
  The 2D context is an external collaborator: the component only writes to it. It is
  modelled by the sequence of calls and property assignments the code performs on it,
  in program order. A gradient object is recorded with its colour stops at the
  moment it is assigned to \<open>fillStyle\<close>.
\<close>

datatype style =
    Color string
  | LinearGradient real real real real "(real \<times> string) list"

datatype ctx_call =
    ClearRect real real real real
  | FillRect real real real real
  | SetFillStyle style
  | SetStrokeStyle string
  | SetLineWidth real
  | SetGlobalAlpha real
  | BeginPath
  | ClosePath
  | MoveTo real real
  | LineTo real real
  | Arc real real real real real
  | Fill
  | Stroke

text \<open>
  Reading a property of \<open>undefined\<close> raises a \<open>TypeError\<close> in JavaScript; that is
  what an out-of-range \<open>pool[i]\<close> followed by a field access would do.
\<close>

datatype error = TypeError

section \<open>Constants: palette and mountain layers\<close>

definition PALETTE_bg :: string where "PALETTE_bg = ''#F4F1E8''"
definition PALETTE_stoneBlue :: string where "PALETTE_stoneBlue = ''#2B5F75''"
definition PALETTE_stoneGreen :: string where "PALETTE_stoneGreen = ''#4A8F78''"
definition PALETTE_ochre :: string where "PALETTE_ochre = ''#A66E4E''"
definition PALETTE_faintBlue :: string where "PALETTE_faintBlue = ''#8FAABC''"
definition PALETTE_gold :: string where "PALETTE_gold = ''#D4AF37''"

definition LAYERS :: "layer list" where
  "LAYERS =
    [\<lparr>l_color = PALETTE_faintBlue, l_strokeColor = ''#6B8C9E'',
      l_fillGradientStart = ''#8FAABC'', l_fillGradientEnd = ''#F4F1E8'',
      l_yOffset = 0.35, l_amplitude = 80, l_frequency = 0.002, l_speed = 0.02,
      l_opacity = 0.6, l_noise = 10\<rparr>,
     \<lparr>l_color = PALETTE_stoneBlue, l_strokeColor = ''#1A3B32'',
      l_fillGradientStart = PALETTE_stoneBlue, l_fillGradientEnd = PALETTE_bg,
      l_yOffset = 0.55, l_amplitude = 120, l_frequency = 0.003, l_speed = 0.05,
      l_opacity = 0.9, l_noise = 20\<rparr>,
     \<lparr>l_color = PALETTE_stoneGreen, l_strokeColor = ''#2B4F3F'',
      l_fillGradientStart = PALETTE_stoneGreen, l_fillGradientEnd = PALETTE_bg,
      l_yOffset = 0.75, l_amplitude = 100, l_frequency = 0.004, l_speed = 0.1,
      l_opacity = 0.95, l_noise = 15\<rparr>,
     \<lparr>l_color = PALETTE_ochre, l_strokeColor = ''#5C3A28'',
      l_fillGradientStart = ''rgba(166, 110, 78, 0.4)'',
      l_fillGradientEnd = ''rgba(244, 241, 232, 0.1)'',
      l_yOffset = 0.9, l_amplitude = 60, l_frequency = 0.0015, l_speed = 0.2,
      l_opacity = 0.8, l_noise = 5\<rparr>]"

section \<open>Component state\<close>

text \<open>
  The refs of the component, together with the parts of its environment that the code
  reads or writes: the window's inner size, the values \<open>Math.random()\<close> returns
  (an infinite sequence and the number of values drawn so far), the browser's list of
  pending animation-frame callbacks (handles, all of them for \<open>animate\<close>), and the
  calls made on the 2D context so far. A canvas element is its \<open>width\<close> and
  \<open>height\<close> attributes and whether \<open>getContext('2d')\<close> yields a context.
\<close>

record mouse =
  m_x :: real
  m_y :: real
  m_targetX :: real
  m_targetY :: real

record canvas =
  c_width :: nat
  c_height :: nat
  c_context :: bool

record state =
  canvasRef :: "canvas option"
  requestRef :: "nat option"
  frameCountRef :: nat
  mouseRef :: mouse
  particlesRef :: "particle list"
  ripplesRef :: "ripple list"
  goldDustRef :: "particle list"
  innerWidth :: nat
  innerHeight :: nat
  resizeListener :: bool
  randoms :: "nat \<Rightarrow> real"
  randomPos :: nat
  rafQueue :: "nat list"
  rafNext :: nat
  ctxCalls :: "ctx_call list"

text \<open>The state of a freshly rendered component, before its effects have run.\<close>

definition initial :: "canvas option \<Rightarrow> nat \<Rightarrow> nat \<Rightarrow> (nat \<Rightarrow> real) \<Rightarrow> state" where
  "initial c w h R =
     \<lparr>canvasRef = c, requestRef = None, frameCountRef = 0,
      mouseRef = \<lparr>m_x = 0, m_y = 0, m_targetX = 0, m_targetY = 0\<rparr>,
      particlesRef = [], ripplesRef = [], goldDustRef = [],
      innerWidth = w, innerHeight = h, resizeListener = False,
      randoms = R, randomPos = 0, rafQueue = [], rafNext = 0, ctxCalls = []\<rparr>"

text \<open>
  \<open>requestAnimationFrame(animate)\<close>: the browser hands out a fresh non-zero handle
  and queues the callback for the next frame.
\<close>

definition requestAnimationFrame :: "state \<Rightarrow> state" where
  "requestAnimationFrame s =
     s\<lparr>requestRef := Some (Suc (rafNext s)),
       rafQueue := rafQueue s @ [Suc (rafNext s)],
       rafNext := Suc (rafNext s)\<rparr>"

section \<open>Initialisation effects\<close>

text \<open>
  The loop \<open>for (let i = 0; i < 40; i++) dust.push({...})\<close>; the first argument is the
  number of iterations left, \<open>k\<close> the position in the random sequence. The fields
  of the object literal are evaluated in source order.
\<close>

fun dust_init :: "nat \<Rightarrow> (nat \<Rightarrow> real) \<Rightarrow> nat \<Rightarrow> nat \<Rightarrow> nat \<Rightarrow> particle list" where
  "dust_init 0 R k w h = []"
| "dust_init (Suc n) R k w h =
     \<lparr>p_x = R k * real w,
      p_y = R (k + 1) * real h,
      p_vx = (R (k + 2) - 0.5) * 0.2,
      p_vy = (R (k + 3) - 0.5) * 0.2,
      p_size = R (k + 4) * 2 + 0.5,
      p_life = 1,
      p_maxLife = 1,
      p_color = PALETTE_gold\<rparr> # dust_init n R (k + 5) w h"

definition resizeCanvas :: "state \<Rightarrow> state" where
  "resizeCanvas s =
     (case canvasRef s of
        Some c \<Rightarrow> s\<lparr>canvasRef := Some (c\<lparr>c_width := innerWidth s, c_height := innerHeight s\<rparr>)\<rparr>
      | None \<Rightarrow> s)"

text \<open>
  The three \<open>useEffect\<close> bodies, run once after the first render in declaration
  order: create the gold dust, register the resize listener and size the canvas,
  request the first animation frame.
\<close>

definition mount :: "state \<Rightarrow> state" where
  "mount s =
     (let s1 = s\<lparr>goldDustRef := dust_init 40 (randoms s) (randomPos s) (innerWidth s) (innerHeight s),
                 randomPos := randomPos s + 200\<rparr>;
          s2 = resizeCanvas (s1\<lparr>resizeListener := True\<rparr>)
      in requestAnimationFrame s2)"

section \<open>Interaction handlers\<close>

definition handleMouseMove :: "real \<Rightarrow> real \<Rightarrow> state \<Rightarrow> state" where
  "handleMouseMove clientX clientY s =
     (let s1 = s\<lparr>mouseRef := (mouseRef s)\<lparr>m_targetX := clientX - real (innerWidth s) / 2,
                                          m_targetY := clientY - real (innerHeight s) / 2\<rparr>\<rparr>;
          R = randoms s; k = randomPos s
      in if frameCountRef s1 mod 2 = 0 then
           s1\<lparr>particlesRef := particlesRef s1 @
                 [\<lparr>p_x = clientX,
                   p_y = clientY,
                   p_vx = (R k - 0.5) * 0.5,
                   p_vy = R (k + 1) * 0.5,
                   p_size = R (k + 2) * 4 + 2,
                   p_life = 1.0,
                   p_maxLife = 1.0,
                   p_color = (if R (k + 3) > 0.5 then ''#111'' else ''#223'')\<rparr>],
              randomPos := k + 4\<rparr>
         else s1)"

definition handleClick :: "real \<Rightarrow> real \<Rightarrow> state \<Rightarrow> state" where
  "handleClick clientX clientY s =
     (let R = randoms s; k = randomPos s
      in s\<lparr>ripplesRef := ripplesRef s @
              [\<lparr>r_x = clientX,
                r_y = clientY,
                r_radius = 0,
                r_maxRadius = 100 + R k * 50,
                r_opacity = 0.6,
                r_color = (if R (k + 1) > 0.5 then PALETTE_stoneGreen else PALETTE_stoneBlue)\<rparr>],
            randomPos := k + 2\<rparr>)"

section \<open>Drawing: background and mountains\<close>

text \<open>
  The loop \<open>for (let i = 0; i < 400; i++)\<close> of \<open>drawRicePaperTexture\<close>: three random
  draws and one \<open>fillRect\<close> per iteration.
\<close>

fun texture_dots :: "nat \<Rightarrow> (nat \<Rightarrow> real) \<Rightarrow> nat \<Rightarrow> real \<Rightarrow> real \<Rightarrow> ctx_call list" where
  "texture_dots 0 R k width height = []"
| "texture_dots (Suc n) R k width height =
     (let x = R k * width; y = R (k + 1) * height; s = R (k + 2) * 2
      in FillRect x y s s # texture_dots n R (k + 3) width height)"

definition drawRicePaperTexture :: "(nat \<Rightarrow> real) \<Rightarrow> nat \<Rightarrow> real \<Rightarrow> real \<Rightarrow> ctx_call list" where
  "drawRicePaperTexture R k width height =
     [SetFillStyle (Color PALETTE_bg), FillRect 0 0 width height,
      SetFillStyle (Color ''rgba(160, 150, 130, 0.08)'')]
     @ texture_dots 400 R k width height"

text \<open>
  The two loops \<open>for (let x = 0; x <= width; x += 5)\<close> of \<open>drawMountain\<close>, one
  tracing the top edge of the filled silhouette, the other the stroked outline. Each
  computes its three sinusoids itself, as the source does. The width is that of the
  canvas, a non-negative integer, so \<open>x\<close> runs over natural numbers.
\<close>

function fill_wave :: "nat \<Rightarrow> nat \<Rightarrow> real \<Rightarrow> real \<Rightarrow> real \<Rightarrow> real \<Rightarrow> real \<Rightarrow> real \<Rightarrow> ctx_call list" where
  "fill_wave x width currentParallax frequency time amplitude noise baseY =
     (if x \<le> width then
        (let y1 = sin ((real x + currentParallax) * frequency + time * 0.1) * amplitude;
             y2 = sin ((real x + currentParallax) * (frequency * 2.5) + time * 0.2) * (amplitude * 0.3);
             y3 = cos ((real x - currentParallax) * (frequency * 5)) * noise
         in LineTo (real x) (baseY - (y1 + y2 + y3))
            # fill_wave (x + 5) width currentParallax frequency time amplitude noise baseY)
      else [])"
  by pat_completeness auto
termination
  by (relation "measure (\<lambda>(x, width, _). Suc width - x)") auto

declare fill_wave.simps [simp del]

function stroke_wave :: "nat \<Rightarrow> nat \<Rightarrow> real \<Rightarrow> real \<Rightarrow> real \<Rightarrow> real \<Rightarrow> real \<Rightarrow> real \<Rightarrow> ctx_call list" where
  "stroke_wave x width currentParallax frequency time amplitude noise baseY =
     (if x \<le> width then
        (let y1 = sin ((real x + currentParallax) * frequency + time * 0.1) * amplitude;
             y2 = sin ((real x + currentParallax) * (frequency * 2.5) + time * 0.2) * (amplitude * 0.3);
             y3 = cos ((real x - currentParallax) * (frequency * 5)) * noise
         in (if x = 0 then MoveTo (real x) (baseY - (y1 + y2 + y3))
             else LineTo (real x) (baseY - (y1 + y2 + y3)))
            # stroke_wave (x + 5) width currentParallax frequency time amplitude noise baseY)
      else [])"
  by pat_completeness auto
termination
  by (relation "measure (\<lambda>(x, width, _). Suc width - x)") auto

declare stroke_wave.simps [simp del]

definition drawMountain :: "nat \<Rightarrow> nat \<Rightarrow> layer \<Rightarrow> real \<Rightarrow> real \<Rightarrow> ctx_call list" where
  "drawMountain width height layer time parallaxX =
     (let yOffset = l_yOffset layer; amplitude = l_amplitude layer;
          frequency = l_frequency layer; speed = l_speed layer;
          strokeColor = l_strokeColor layer;
          fillGradientStart = l_fillGradientStart layer;
          fillGradientEnd = l_fillGradientEnd layer; noise = l_noise layer;
          currentParallax = parallaxX * speed;
          breath = sin (time * 0.5) * 5;
          baseY = real height * yOffset + breath
      in [BeginPath, MoveTo 0 (real height)]
         @ fill_wave 0 width currentParallax frequency time amplitude noise baseY
         @ [LineTo (real width) (real height), ClosePath,
            SetFillStyle (LinearGradient 0 (baseY - amplitude) 0 (real height)
                            [(0, fillGradientStart), (1, fillGradientEnd)]),
            SetGlobalAlpha (l_opacity layer), Fill,
            SetGlobalAlpha 1.0, BeginPath]
         @ stroke_wave 0 width currentParallax frequency time amplitude noise baseY
         @ [SetStrokeStyle strokeColor, SetLineWidth 1.5, Stroke])"

section \<open>Gold dust (atmosphere)\<close>

text \<open>
  The body of \<open>goldDustRef.current.forEach\<close>: the float movement, in which the
  second assignment reads the \<open>x\<close> the first one wrote, then the four wrap-around
  tests in source order.
\<close>

definition dust_update :: "real \<Rightarrow> real \<Rightarrow> real \<Rightarrow> particle \<Rightarrow> particle" where
  "dust_update t width height p =
     (let x1 = p_x p + sin (t + p_y p * 0.01) * 0.5;
          y1 = p_y p + cos (t + x1 * 0.01) * 0.2;
          x2 = (if x1 > width then 0 else x1);
          x3 = (if x2 < 0 then width else x2);
          y2 = (if y1 > height then 0 else y1);
          y3 = (if y2 < 0 then height else y2)
      in p\<lparr>p_x := x3, p_y := y3\<rparr>)"

definition dust_draw :: "real \<Rightarrow> particle \<Rightarrow> ctx_call list" where
  "dust_draw t p =
     [BeginPath,
      Arc (p_x p) (p_y p) (p_size p) 0 (pi * 2),
      SetFillStyle (Color (p_color p)),
      SetGlobalAlpha (0.5 + sin (t * 5 + p_x p) * 0.3),
      Fill]"

fun dust_forEach :: "real \<Rightarrow> real \<Rightarrow> real \<Rightarrow> particle list \<Rightarrow> ctx_call list \<Rightarrow> particle list \<times> ctx_call list" where
  "dust_forEach t width height [] cs = ([], cs)"
| "dust_forEach t width height (p # ps) cs =
     (let q = dust_update t width height p;
          (qs, cs') = dust_forEach t width height ps (cs @ dust_draw t q)
      in (q # qs, cs'))"

section \<open>Removal while iterating\<close>

text \<open>\<open>xs.splice(i, 1)\<close>: remove the element at index \<open>i\<close>.\<close>

definition splice1 :: "nat \<Rightarrow> 'a list \<Rightarrow> 'a list" where
  "splice1 i xs = take i xs @ drop (Suc i) xs"

section \<open>Brush trail (mouse ink)\<close>

text \<open>
  The body of the loop \<open>for (let i = particlesRef.current.length - 1; i >= 0; i--)\<close>
  of \<open>animate\<close>: the two assignments to the particle at index \<open>i\<close>.
\<close>

definition trail_update :: "particle \<Rightarrow> particle" where
  "trail_update p = p\<lparr>p_life := p_life p - 0.02, p_size := p_size p * 0.98\<rparr>"

definition trail_draw :: "particle \<Rightarrow> ctx_call list" where
  "trail_draw p =
     [BeginPath,
      Arc (p_x p) (p_y p) (p_size p) 0 (pi * 2),
      SetFillStyle (Color (p_color p)),
      SetGlobalAlpha (p_life p * 0.6),
      Fill]"

text \<open>
  The loop itself. The first argument is \<open>i + 1\<close> for the loop variable \<open>i\<close>, which
  runs from \<open>length - 1\<close> down to \<open>0\<close>; the pool is updated in place at index \<open>i\<close>
  or spliced there, and the calls on the context are appended in iteration order.
\<close>

fun trail_loop :: "nat \<Rightarrow> particle list \<Rightarrow> ctx_call list \<Rightarrow> error + (particle list \<times> ctx_call list)" where
  "trail_loop 0 ps cs = Inr (ps, cs)"
| "trail_loop (Suc i) ps cs =
     (if i < length ps then
        (let p = trail_update (ps ! i) in
         if p_life p \<le> 0 then trail_loop i (splice1 i ps) cs
         else trail_loop i (ps[i := p]) (cs @ trail_draw p))
      else Inl TypeError)"

section \<open>Ripples (ink expansion)\<close>

definition ripple_update :: "ripple \<Rightarrow> ripple" where
  "ripple_update r = r\<lparr>r_radius := r_radius r + 1.5, r_opacity := r_opacity r - 0.01\<rparr>"

definition ripple_draw :: "ripple \<Rightarrow> ctx_call list" where
  "ripple_draw r =
     [BeginPath,
      Arc (r_x r) (r_y r) (r_radius r) 0 (pi * 2),
      SetStrokeStyle (r_color r),
      SetLineWidth (2 + (1 - r_opacity r) * 10),
      SetGlobalAlpha (r_opacity r),
      Stroke]
     @ (if r_radius r > 20 then
          [BeginPath,
           Arc (r_x r) (r_y r) (r_radius r - 15) 0 (pi * 2),
           SetStrokeStyle (r_color r),
           SetLineWidth 1,
           SetGlobalAlpha (r_opacity r * 0.5),
           Stroke]
        else [])"

text \<open>
  The loop \<open>for (let i = ripplesRef.current.length - 1; i >= 0; i--)\<close>, with the same
  conventions as \<open>trail_loop\<close>.
\<close>

fun ripple_loop :: "nat \<Rightarrow> ripple list \<Rightarrow> ctx_call list \<Rightarrow> error + (ripple list \<times> ctx_call list)" where
  "ripple_loop 0 rs cs = Inr (rs, cs)"
| "ripple_loop (Suc i) rs cs =
     (if i < length rs then
        (let r = ripple_update (rs ! i) in
         if r_opacity r \<le> 0 then ripple_loop i (splice1 i rs) cs
         else ripple_loop i (rs[i := r]) (cs @ ripple_draw r))
      else Inl TypeError)"

section \<open>The frame driver\<close>

definition lerp_mouse :: "mouse \<Rightarrow> mouse" where
  "lerp_mouse m =
     (let m1 = m\<lparr>m_x := m_x m + (m_targetX m - m_x m) * 0.05\<rparr>
      in m1\<lparr>m_y := m_y m1 + (m_targetY m1 - m_y m1) * 0.05\<rparr>)"

text \<open>
  \<open>animate\<close>: the two guards return without touching anything; otherwise the frame
  is drawn in the source's order and the next frame is requested.
\<close>

definition animate :: "real \<Rightarrow> state \<Rightarrow> error + state" where
  "animate time s =
     (case canvasRef s of
        None \<Rightarrow> Inr s
      | Some canvas \<Rightarrow>
          if \<not> c_context canvas then Inr s
          else
            (let width = c_width canvas;
                 height = c_height canvas;
                 t = time * 0.001;
                 m = lerp_mouse (mouseRef s);
                 cs1 = ctxCalls s @ [ClearRect 0 0 (real width) (real height)]
                       @ drawRicePaperTexture (randoms s) (randomPos s) (real width) (real height);
                 cs2 = cs1 @ concat (map (\<lambda>layer. drawMountain width height layer t (m_x m)) LAYERS);
                 (dust, cs3) = dust_forEach t (real width) (real height) (goldDustRef s) cs2
             in case ripple_loop (length (ripplesRef s)) (ripplesRef s) cs3 of
                  Inl e \<Rightarrow> Inl e
                | Inr (ripples, cs4) \<Rightarrow>
                    (case trail_loop (length (particlesRef s)) (particlesRef s) cs4 of
                       Inl e \<Rightarrow> Inl e
                     | Inr (particles, cs5) \<Rightarrow>
                         Inr (requestAnimationFrame
                               (s\<lparr>frameCountRef := frameCountRef s + 1,
                                  mouseRef := m,
                                  goldDustRef := dust,
                                  ripplesRef := ripples,
                                  particlesRef := particles,
                                  randomPos := randomPos s + 1200,
                                  ctxCalls := cs5 @ [SetGlobalAlpha 1.0]\<rparr>)))))"

section \<open>Events\<close>

text \<open>
  What happens to a mounted component: the browser runs the pending animation-frame
  callbacks with a timestamp, the pointer moves or clicks on the canvas, or the window
  is resized. A frame takes the list of pending callbacks, empties it, and calls
  \<open>animate\<close> once for each; an exception thrown by a callback ends the run.
\<close>

datatype event =
    Frame real
  | MouseMove real real
  | Click real real
  | Resize nat nat

fun run_callbacks :: "nat list \<Rightarrow> real \<Rightarrow> state \<Rightarrow> error + state" where
  "run_callbacks [] time s = Inr s"
| "run_callbacks (h # hs) time s =
     (case animate time s of Inl e \<Rightarrow> Inl e | Inr s' \<Rightarrow> run_callbacks hs time s')"

fun step :: "event \<Rightarrow> state \<Rightarrow> error + state" where
  "step (Frame time) s = run_callbacks (rafQueue s) time (s\<lparr>rafQueue := []\<rparr>)"
| "step (MouseMove clientX clientY) s = Inr (handleMouseMove clientX clientY s)"
| "step (Click clientX clientY) s = Inr (handleClick clientX clientY s)"
| "step (Resize w h) s =
     (let s1 = s\<lparr>innerWidth := w, innerHeight := h\<rparr>
      in Inr (if resizeListener s1 then resizeCanvas s1 else s1))"

fun run :: "event list \<Rightarrow> state \<Rightarrow> error + state" where
  "run [] s = Inr s"
| "run (e # es) s = (case step e s of Inl err \<Rightarrow> Inl err | Inr s' \<Rightarrow> run es s')"

section \<open>Vocabulary for the properties\<close>

text \<open>
  One frame's effect on the two decaying pools, written as a retain-filter, and the
  state a drawn frame leads to; the loops of \<open>animate\<close> are shown to compute them.
\<close>

definition trail_step :: "particle list \<Rightarrow> particle list" where
  "trail_step ps = filter (\<lambda>p. \<not> p_life p \<le> 0) (map trail_update ps)"

definition ripple_step :: "ripple list \<Rightarrow> ripple list" where
  "ripple_step rs = filter (\<lambda>r. \<not> r_opacity r \<le> 0) (map ripple_update rs)"

definition frame_calls :: "real \<Rightarrow> canvas \<Rightarrow> state \<Rightarrow> ctx_call list" where
  "frame_calls time c s =
     (let t = time * 0.001; w = c_width c; h = c_height c in
      [ClearRect 0 0 (real w) (real h)]
      @ drawRicePaperTexture (randoms s) (randomPos s) (real w) (real h)
      @ concat (map (\<lambda>layer. drawMountain w h layer t (m_x (lerp_mouse (mouseRef s)))) LAYERS)
      @ concat (map (\<lambda>p. dust_draw t (dust_update t (real w) (real h) p)) (goldDustRef s))
      @ concat (map ripple_draw (rev (ripple_step (ripplesRef s))))
      @ concat (map trail_draw (rev (trail_step (particlesRef s))))
      @ [SetGlobalAlpha 1.0])"

definition next_frame :: "real \<Rightarrow> canvas \<Rightarrow> state \<Rightarrow> state" where
  "next_frame time c s =
     requestAnimationFrame
       (s\<lparr>frameCountRef := frameCountRef s + 1,
          mouseRef := lerp_mouse (mouseRef s),
          goldDustRef := map (dust_update (time * 0.001) (real (c_width c)) (real (c_height c))) (goldDustRef s),
          ripplesRef := ripple_step (ripplesRef s),
          particlesRef := trail_step (particlesRef s),
          randomPos := randomPos s + 1200,
          ctxCalls := ctxCalls s @ frame_calls time c s\<rparr>)"

text \<open>Observations of a state: where the ink particles are.\<close>

definition ink_positions :: "state \<Rightarrow> (real \<times> real) list" where
  "ink_positions s = map (\<lambda>p. (p_x p, p_y p)) (particlesRef s)"

text \<open>
  Concrete inputs: an 800 by 600 canvas with a 2D context, a random source that always
  returns the same value, the ink particle a pointer move at (10, 20) spawns when every
  random draw is 0.75, and the component mounted on that canvas after that move.
\<close>

definition canvas_800_600 :: canvas where
  "canvas_800_600 = \<lparr>c_width = 800, c_height = 600, c_context = True\<rparr>"

definition const_randoms :: "real \<Rightarrow> nat \<Rightarrow> real" where
  "const_randoms v n = v"

definition ink_example :: particle where
  "ink_example =
     \<lparr>p_x = 10, p_y = 20, p_vx = 0.125, p_vy = 0.375, p_size = 5,
      p_life = 1, p_maxLife = 1, p_color = ''#111''\<rparr>"

definition ink_state :: state where
  "ink_state =
     handleMouseMove 10 20 (mount (initial (Some canvas_800_600) 800 600 (const_randoms 0.75)))"

text \<open>Pointer moves as events, and the number of ink particles in the pool.\<close>

definition moves :: "(real \<times> real) list \<Rightarrow> event list" where
  "moves ms = map (\<lambda>(x, y). MouseMove x y) ms"

definition ink_count :: "state \<Rightarrow> nat" where
  "ink_count s = length (particlesRef s)"

text \<open>
  A component mounted on the 800 by 600 canvas, and one mounted while the canvas ref is
  still empty; in both the first animation frame has been requested.
\<close>

definition mounted_example :: state where
  "mounted_example = mount (initial (Some canvas_800_600) 800 600 (const_randoms 0.75))"

definition no_surface_example :: state where
  "no_surface_example = mount (initial None 800 600 (const_randoms 0.75))"

text \<open>
  What identifies a gold-dust particle apart from where it is, and the scenario of a
  viewport shrunk to 400 by 300 while a particle sits at \<open>x = 750\<close>.
\<close>

definition dust_identity :: "particle \<Rightarrow> particle" where
  "dust_identity p = p\<lparr>p_x := 0, p_y := 0\<rparr>"

definition canvas_400_300 :: canvas where
  "canvas_400_300 = \<lparr>c_width = 400, c_height = 300, c_context = True\<rparr>"

definition dust_example :: particle where
  "dust_example =
     \<lparr>p_x = 750, p_y = 0, p_vx = 0.05, p_vy = 0.05, p_size = 2,
      p_life = 1, p_maxLife = 1, p_color = PALETTE_gold\<rparr>"

definition dust_state :: state where
  "dust_state =
     (initial (Some canvas_400_300) 400 300 (const_randoms 0.75))\<lparr>goldDustRef := [dust_example]\<rparr>"

text \<open>
  The points a sequence of path calls passes through, the \<open>x\<close> values
  \<open>0, 5, 10, \<dots>\<close> up to the width, and the terrain height and baseline as the
  specification words them (sections 4.1 and 4.2): the sum of a primary wave, a detail
  wave of 0.3 times the amplitude at 2.5 times the frequency, and a roughness term at 5
  times the frequency whose phase uses the parallax with the opposite sign.
\<close>

fun path_points :: "ctx_call list \<Rightarrow> (real \<times> real) list" where
  "path_points [] = []"
| "path_points (MoveTo x y # cs) = (x, y) # path_points cs"
| "path_points (LineTo x y # cs) = (x, y) # path_points cs"
| "path_points (c # cs) = path_points cs"

definition sample_xs :: "nat \<Rightarrow> nat list" where
  "sample_xs width = map (\<lambda>k. 5 * k) [0..<width div 5 + 1]"

definition height_spec :: "real \<Rightarrow> real \<Rightarrow> real \<Rightarrow> layer \<Rightarrow> real" where
  "height_spec x time parallaxOffset layer =
     (let A = l_amplitude layer; f = l_frequency layer; speed = l_speed layer
      in sin ((x + parallaxOffset * speed) * f + time * 0.1) * A
       + sin ((x + parallaxOffset * speed) * (2.5 * f) + time * 0.2) * (0.3 * A)
       + cos ((x - parallaxOffset * speed) * (5 * f)) * l_noise layer)"

definition baseline_spec :: "nat \<Rightarrow> real \<Rightarrow> layer \<Rightarrow> real" where
  "baseline_spec height time layer = real height * l_yOffset layer + sin (time * 0.5) * 5"

definition layer_example :: layer where
  "layer_example = hd LAYERS"

text \<open>
  A state in which frames are drawn: the canvas is there, it has a 2D context, and one
  frame callback is pending. This is the state of a component mounted on such a canvas,
  and every event keeps it.
\<close>

definition ready :: "state \<Rightarrow> bool" where
  "ready s = (case canvasRef s of
                Some c \<Rightarrow> c_context c \<and> length (rafQueue s) = 1
              | None \<Rightarrow> False)"

text \<open>
  The ink particle a pointer move at (10, 20) spawns when every random draw is 0.5 (its
  size is 4), in the pool of the mounted component, and frame timestamps 16 ms apart.
\<close>

definition ink_size4 :: particle where
  "ink_size4 =
     \<lparr>p_x = 10, p_y = 20, p_vx = 0, p_vy = 0.25, p_size = 4,
      p_life = 1, p_maxLife = 1, p_color = ''#223''\<rparr>"

definition ink_size4_state :: state where
  "ink_size4_state =
     handleMouseMove 10 20 (mount (initial (Some canvas_800_600) 800 600 (const_randoms 0.5)))"

definition timestamps :: "nat \<Rightarrow> real list" where
  "timestamps n = map (\<lambda>k. 16 * real k) [1..<n + 1]"

text \<open>
  Counting the events of a run; the bounds every spawned entity satisfies (an ink
  particle is created with life 1.0, a ripple with opacity 0.6, and both only decrease);
  and a state with its two decaying pools and the call log emptied, to compare a run
  with the run that starts from empty pools.
\<close>

fun frames_in :: "event list \<Rightarrow> nat" where
  "frames_in [] = 0"
| "frames_in (Frame time # evs) = Suc (frames_in evs)"
| "frames_in (e # evs) = frames_in evs"

fun moves_in :: "event list \<Rightarrow> nat" where
  "moves_in [] = 0"
| "moves_in (MouseMove x y # evs) = Suc (moves_in evs)"
| "moves_in (e # evs) = moves_in evs"

fun clicks_in :: "event list \<Rightarrow> nat" where
  "clicks_in [] = 0"
| "clicks_in (Click x y # evs) = Suc (clicks_in evs)"
| "clicks_in (e # evs) = clicks_in evs"

definition pools_bounded :: "state \<Rightarrow> bool" where
  "pools_bounded s =
     (list_all (\<lambda>p. p_life p \<le> 1) (particlesRef s) \<and> list_all (\<lambda>r. r_opacity r \<le> 0.6) (ripplesRef s))"

definition strip_pools :: "state \<Rightarrow> state" where
  "strip_pools s = s\<lparr>particlesRef := [], ripplesRef := [], ctxCalls := []\<rparr>"

text \<open>The mounted component after a pointer move and a click: one ink particle, one ripple.\<close>

definition ink_and_ripple_state :: state where
  "ink_and_ripple_state = handleClick 100 100 ink_size4_state"

text \<open>
  A ripple and a state with every \<open>maxRadius\<close> overwritten by 0: two states that
  agree after this differ in nothing but the \<open>maxRadius\<close> fields of their ripples.
  The radius and opacity of the ripples of a state, in pool order. Two such states:
  the mounted component after a click, and the same with the ripple's \<open>maxRadius\<close>
  changed from 137.5 to 100.
\<close>

definition forget_maxRadius :: "ripple \<Rightarrow> ripple" where
  "forget_maxRadius r = r\<lparr>r_maxRadius := 0\<rparr>"

definition forget_state :: "state \<Rightarrow> state" where
  "forget_state s = s\<lparr>ripplesRef := map forget_maxRadius (ripplesRef s)\<rparr>"

definition ripple_trajectory :: "state \<Rightarrow> (real \<times> real) list" where
  "ripple_trajectory s = map (\<lambda>r. (r_radius r, r_opacity r)) (ripplesRef s)"

definition ripple_state_a :: state where
  "ripple_state_a = handleClick 100 100 mounted_example"

definition ripple_state_b :: state where
  "ripple_state_b =
     ripple_state_a\<lparr>ripplesRef := map (\<lambda>r. r\<lparr>r_maxRadius := 100\<rparr>) (ripplesRef ripple_state_a)\<rparr>"

subsection \<open>IEEE doubles, for the decay thresholds\<close>

text \<open>
  The properties above are over the reals. The decay scenarios end on comparisons with
  0 that rounding could tip, so they are replayed in the arithmetic JavaScript uses. A
  finite double is a dyadic rational \<open>m \<sqdot> 2\<^sup>e\<close>, kept with an odd mantissa
  (or as \<open>(0, 0)\<close>); an operation computes the exact dyadic result and rounds it to
  53 significant bits, ties to even. Overflow and subnormal numbers are not modelled:
  the magnitudes met here lie between \<open>2\<^sup>-\<^sup>6\<^sup>0\<close> and \<open>2\<^sup>5\<close>. The constants
  are the doubles nearest to the decimal literals of the source; the traces list the
  values a field takes under repeated \<open>-= 0.02\<close>, \<open>*= 0.98\<close>, \<open>-= 0.01\<close> and
  \<open>+= 1.5\<close>.
\<close>

function bits :: "int \<Rightarrow> int" where
  "bits m = (if m \<le> 0 then 0 else bits (m div 2) + 1)"
  by pat_completeness auto
termination
  by (relation "measure nat") auto

declare bits.simps [simp del]

type_synonym dyadic = "int \<times> int"

definition dval :: "dyadic \<Rightarrow> real" where
  "dval d = (if 0 \<le> snd d then real_of_int (fst d) * 2 ^ nat (snd d)
             else real_of_int (fst d) / 2 ^ nat (- snd d))"

function dnorm :: "dyadic \<Rightarrow> dyadic" where
  "dnorm (m, e) = (if m \<noteq> 0 \<and> even m then dnorm (m div 2, e + 1) else (m, e))"
  by pat_completeness auto
termination
  by (relation "measure (\<lambda>(m, e). nat \<bar>m\<bar>)") auto

declare dnorm.simps [simp del]

definition round53 :: "dyadic \<Rightarrow> dyadic" where
  "round53 d =
     (let m = fst d; e = snd d; k = bits \<bar>m\<bar> - 53
      in if k \<le> 0 then dnorm (m, e)
         else
           (let unit = 2 ^ nat k;
                q = \<bar>m\<bar> div unit;
                r = \<bar>m\<bar> mod unit;
                half = unit div 2;
                q' = (if r < half then q
                      else if half < r then q + 1
                      else if even q then q else q + 1)
            in dnorm (sgn m * q', e + k)))"

definition dsub :: "dyadic \<Rightarrow> dyadic \<Rightarrow> dyadic" where
  "dsub a b =
     (let e = min (snd a) (snd b)
      in round53 (fst a * 2 ^ nat (snd a - e) - fst b * 2 ^ nat (snd b - e), e))"

definition dadd :: "dyadic \<Rightarrow> dyadic \<Rightarrow> dyadic" where
  "dadd a b =
     (let e = min (snd a) (snd b)
      in round53 (fst a * 2 ^ nat (snd a - e) + fst b * 2 ^ nat (snd b - e), e))"

definition dmul :: "dyadic \<Rightarrow> dyadic \<Rightarrow> dyadic" where
  "dmul a b = round53 (fst a * fst b, snd a + snd b)"

definition d_0_02 :: dyadic where "d_0_02 = (5764607523034235, - 58)"
definition d_0_01 :: dyadic where "d_0_01 = (5764607523034235, - 59)"
definition d_0_98 :: dyadic where "d_0_98 = (2206763817411543, - 51)"
definition d_0_6 :: dyadic where "d_0_6 = (5404319552844595, - 53)"

definition d_1_5 :: dyadic where "d_1_5 = (3, - 1)"

fun life_trace :: "nat \<Rightarrow> dyadic \<Rightarrow> dyadic list" where
  "life_trace 0 l = []"
| "life_trace (Suc n) l = (let l' = dsub l d_0_02 in l' # life_trace n l')"

fun size_trace :: "nat \<Rightarrow> dyadic \<Rightarrow> dyadic list" where
  "size_trace 0 z = []"
| "size_trace (Suc n) z = (let z' = dmul z d_0_98 in z' # size_trace n z')"

fun opacity_trace :: "nat \<Rightarrow> dyadic \<Rightarrow> dyadic list" where
  "opacity_trace 0 a = []"
| "opacity_trace (Suc n) a = (let a' = dsub a d_0_01 in a' # opacity_trace n a')"

fun radius_trace :: "nat \<Rightarrow> dyadic \<Rightarrow> dyadic list" where
  "radius_trace 0 r = []"
| "radius_trace (Suc n) r = (let r' = dadd r d_1_5 in r' # radius_trace n r')"

text \<open>
  The brush-trail loop of \<open>animate\<close> once more, in this arithmetic: the same loop
  as \<open>trail_loop\<close>, on particles whose numeric fields are doubles, with
  \<open>-=\<close>, \<open>*=\<close> and \<open>*\<close> rounding as they do in the source and \<open><= 0\<close> read off
  the sign of the mantissa. \<open>Math.PI\<close> is the double nearest to \<open>\<pi>\<close>. The calls
  record the values of the doubles passed to the context. \<open>trail_frames_double n\<close>
  runs the loop in \<open>n\<close> consecutive frames. The ink particle of size 4 above,
  with its fields as doubles.
\<close>

definition d_pi :: dyadic where "d_pi = (884279719003555, - 48)"
definition d_0_8 :: dyadic where "d_0_8 = (3602879701896397, - 52)"

record dparticle =
  d_x :: dyadic
  d_y :: dyadic
  d_vx :: dyadic
  d_vy :: dyadic
  d_size :: dyadic
  d_life :: dyadic
  d_maxLife :: dyadic
  d_color :: string

definition trail_update_double :: "dparticle \<Rightarrow> dparticle" where
  "trail_update_double p = p\<lparr>d_life := dsub (d_life p) d_0_02, d_size := dmul (d_size p) d_0_98\<rparr>"

definition trail_draw_double :: "dparticle \<Rightarrow> ctx_call list" where
  "trail_draw_double p =
     [BeginPath,
      Arc (dval (d_x p)) (dval (d_y p)) (dval (d_size p)) 0 (dval (dmul d_pi (1, 1))),
      SetFillStyle (Color (d_color p)),
      SetGlobalAlpha (dval (dmul (d_life p) d_0_6)),
      Fill]"

fun trail_loop_double :: "nat \<Rightarrow> dparticle list \<Rightarrow> ctx_call list \<Rightarrow> error + (dparticle list \<times> ctx_call list)" where
  "trail_loop_double 0 ps cs = Inr (ps, cs)"
| "trail_loop_double (Suc i) ps cs =
     (if i < length ps then
        (let p = trail_update_double (ps ! i) in
         if fst (d_life p) \<le> 0 then trail_loop_double i (splice1 i ps) cs
         else trail_loop_double i (ps[i := p]) (cs @ trail_draw_double p))
      else Inl TypeError)"

fun trail_frames_double :: "nat \<Rightarrow> dparticle list \<Rightarrow> ctx_call list \<Rightarrow> error + (dparticle list \<times> ctx_call list)" where
  "trail_frames_double 0 ps cs = Inr (ps, cs)"
| "trail_frames_double (Suc n) ps cs =
     (case trail_loop_double (length ps) ps cs of
        Inl e \<Rightarrow> Inl e
      | Inr (ps', cs') \<Rightarrow> trail_frames_double n ps' cs')"

definition trail_step_double :: "dparticle list \<Rightarrow> dparticle list" where
  "trail_step_double ps = filter (\<lambda>p. \<not> fst (d_life p) \<le> 0) (map trail_update_double ps)"

fun life_after :: "nat \<Rightarrow> dyadic \<Rightarrow> dyadic" where
  "life_after 0 l = l"
| "life_after (Suc n) l = life_after n (dsub l d_0_02)"

fun size_after :: "nat \<Rightarrow> dyadic \<Rightarrow> dyadic" where
  "size_after 0 z = z"
| "size_after (Suc n) z = size_after n (dmul z d_0_98)"

definition pool_lives_and_sizes :: "dparticle list \<times> ctx_call list \<Rightarrow> (dyadic \<times> dyadic) list" where
  "pool_lives_and_sizes r = map (\<lambda>p. (d_life p, d_size p)) (fst r)"

definition ink_size4_double :: dparticle where
  "ink_size4_double =
     \<lparr>d_x = (5, 1), d_y = (5, 2), d_vx = (0, 0), d_vy = (1, - 2), d_size = (1, 2),
      d_life = (1, 0), d_maxLife = (1, 0), d_color = ''#223''\<rparr>"

section \<open>Properties of the loops\<close>

lemma take_splice1: "i < length xs \<Longrightarrow> take i (splice1 i xs) = take i xs"
  by (simp add: splice1_def)

lemma drop_splice1: "i < length xs \<Longrightarrow> drop i (splice1 i xs) = drop (Suc i) xs"
  by (simp add: splice1_def)

lemma length_splice1: "i < length xs \<Longrightarrow> length (splice1 i xs) = length xs - 1"
  by (simp add: splice1_def)

lemma trail_loop_eq:
  "n \<le> length ps \<Longrightarrow>
   trail_loop n ps cs =
     Inr (filter (\<lambda>p. \<not> p_life p \<le> 0) (map trail_update (take n ps)) @ drop n ps,
          cs @ concat (map trail_draw (rev (filter (\<lambda>p. \<not> p_life p \<le> 0) (map trail_update (take n ps))))))"
proof (induction n arbitrary: ps cs)
  case 0
  then show ?case by simp
next
  case (Suc i)
  then have i: "i < length ps" by simp
  let ?p = "trail_update (ps ! i)"
  have tk: "take (Suc i) ps = take i ps @ [ps ! i]"
    using i by (simp add: take_Suc_conv_app_nth)
  show ?case
  proof (cases "p_life ?p \<le> 0")
    case True
    have "i \<le> length (splice1 i ps)" using i by (simp add: length_splice1)
    from Suc.IH [OF this] True i show ?thesis
      by (simp add: tk take_splice1 drop_splice1 Let_def)
  next
    case False
    have le: "i \<le> length (ps[i := ?p])" using i by simp
    have dr: "drop i (ps[i := ?p]) = ?p # drop (Suc i) ps"
      using i by (simp add: drop_update_cancel Cons_nth_drop_Suc [symmetric] upd_conv_take_nth_drop)
    from Suc.IH [OF le] False i show ?thesis
      by (simp add: tk dr Let_def)
  qed
qed

lemma ripple_loop_eq:
  "n \<le> length rs \<Longrightarrow>
   ripple_loop n rs cs =
     Inr (filter (\<lambda>r. \<not> r_opacity r \<le> 0) (map ripple_update (take n rs)) @ drop n rs,
          cs @ concat (map ripple_draw (rev (filter (\<lambda>r. \<not> r_opacity r \<le> 0) (map ripple_update (take n rs))))))"
proof (induction n arbitrary: rs cs)
  case 0
  then show ?case by simp
next
  case (Suc i)
  then have i: "i < length rs" by simp
  let ?r = "ripple_update (rs ! i)"
  have tk: "take (Suc i) rs = take i rs @ [rs ! i]"
    using i by (simp add: take_Suc_conv_app_nth)
  show ?case
  proof (cases "r_opacity ?r \<le> 0")
    case True
    have "i \<le> length (splice1 i rs)" using i by (simp add: length_splice1)
    from Suc.IH [OF this] True i show ?thesis
      by (simp add: tk take_splice1 drop_splice1 Let_def)
  next
    case False
    have le: "i \<le> length (rs[i := ?r])" using i by simp
    have dr: "drop i (rs[i := ?r]) = ?r # drop (Suc i) rs"
      using i by (simp add: upd_conv_take_nth_drop)
    from Suc.IH [OF le] False i show ?thesis
      by (simp add: tk dr Let_def)
  qed
qed

text \<open>
  Run over the whole pool, each loop updates every entity once, keeps exactly those that
  have not expired, in their order, and never reads outside the pool; it draws the
  survivors from the last to the first.
\<close>

lemma trail_loop_all:
  "trail_loop (length ps) ps cs = Inr (trail_step ps, cs @ concat (map trail_draw (rev (trail_step ps))))"
  by (simp add: trail_loop_eq trail_step_def)

lemma ripple_loop_all:
  "ripple_loop (length rs) rs cs = Inr (ripple_step rs, cs @ concat (map ripple_draw (rev (ripple_step rs))))"
  by (simp add: ripple_loop_eq ripple_step_def)

lemma dust_forEach_eq:
  "dust_forEach t w h ps cs =
     (map (dust_update t w h) ps, cs @ concat (map (\<lambda>p. dust_draw t (dust_update t w h p)) ps))"
  by (induction ps arbitrary: cs) (simp_all add: Let_def)

section \<open>Properties of a frame\<close>

lemma animate_eq:
  assumes "canvasRef s = Some c" "c_context c"
  shows "animate time s = Inr (next_frame time c s)"
  using assms
  by (simp add: animate_def next_frame_def frame_calls_def Let_def dust_forEach_eq
        ripple_loop_all trail_loop_all)

lemma animate_skip:
  "canvasRef s = None \<or> (\<exists>c. canvasRef s = Some c \<and> \<not> c_context c) \<Longrightarrow> animate time s = Inr s"
  by (auto simp: animate_def)

lemma particlesRef_next_frame [simp]: "particlesRef (next_frame time c s) = trail_step (particlesRef s)"
  by (simp add: next_frame_def requestAnimationFrame_def)

lemma ripplesRef_next_frame [simp]: "ripplesRef (next_frame time c s) = ripple_step (ripplesRef s)"
  by (simp add: next_frame_def requestAnimationFrame_def)

lemma goldDustRef_next_frame [simp]:
  "goldDustRef (next_frame time c s) =
     map (dust_update (time * 0.001) (real (c_width c)) (real (c_height c))) (goldDustRef s)"
  by (simp add: next_frame_def requestAnimationFrame_def)

lemma canvasRef_next_frame [simp]: "canvasRef (next_frame time c s) = canvasRef s"
  by (simp add: next_frame_def requestAnimationFrame_def)

lemma frameCountRef_next_frame [simp]: "frameCountRef (next_frame time c s) = Suc (frameCountRef s)"
  by (simp add: next_frame_def requestAnimationFrame_def)

lemma rafQueue_next_frame [simp]: "rafQueue (next_frame time c s) = rafQueue s @ [Suc (rafNext s)]"
  by (simp add: next_frame_def requestAnimationFrame_def)

section \<open>The ink trail\<close>

text \<open>
  C1, as amended. In a drawn frame every ink particle of the pool is updated once: its
  life decreases by 0.02 and its size is multiplied by 0.98, while its position and its
  velocity are left as they are (no code reads the velocity); the particles kept are
  those whose new life is positive.
\<close>

theorem ink_trail_frame_update:
  assumes "canvasRef s = Some c" and "c_context c"
  shows "\<exists>s'. animate time s = Inr s'
           \<and> particlesRef s' = filter (\<lambda>q. 0 < p_life q) (map trail_update (particlesRef s))
           \<and> (\<forall>p \<in> set (particlesRef s).
                 p_life (trail_update p) = p_life p - 0.02
               \<and> p_size (trail_update p) = p_size p * 0.98
               \<and> p_x (trail_update p) = p_x p \<and> p_y (trail_update p) = p_y p
               \<and> p_vx (trail_update p) = p_vx p \<and> p_vy (trail_update p) = p_vy p)"
proof -
  have "particlesRef (next_frame time c s) = filter (\<lambda>q. 0 < p_life q) (map trail_update (particlesRef s))"
    by (simp add: trail_step_def not_le)
  moreover have "p_life (trail_update p) = p_life p - 0.02 \<and> p_size (trail_update p) = p_size p * 0.98
      \<and> p_x (trail_update p) = p_x p \<and> p_y (trail_update p) = p_y p
      \<and> p_vx (trail_update p) = p_vx p \<and> p_vy (trail_update p) = p_vy p" for p
    by (simp add: trail_update_def)
  ultimately show ?thesis
    using animate_eq [OF assms] by blast
qed

lemma ink_state_simps:
  "canvasRef ink_state = Some canvas_800_600" "particlesRef ink_state = [ink_example]"
  "rafQueue ink_state = [1]"
  by (simp_all add: ink_state_def handleMouseMove_def Let_def mount_def initial_def
      resizeCanvas_def requestAnimationFrame_def const_randoms_def ink_example_def
      canvas_800_600_def)

theorem ink_trail_frame_update_witness:
  "canvasRef ink_state = Some canvas_800_600 \<and> c_context canvas_800_600
   \<and> (\<exists>s'. animate 16 ink_state = Inr s'
          \<and> particlesRef s' = [ink_example\<lparr>p_life := 0.98, p_size := 4.9\<rparr>]
          \<and> p_x (trail_update ink_example) = 10 \<and> p_y (trail_update ink_example) = 20)"
proof -
  have k: "c_context canvas_800_600"
    by (simp add: canvas_800_600_def)
  from ink_trail_frame_update [OF ink_state_simps(1) k, of 16] show ?thesis
    by (simp add: ink_state_simps k trail_update_def ink_example_def)
qed

text \<open>
  The claim as stated fails: after mounting and a pointer move at (10, 20) the pool holds
  one particle at (10, 20) with velocity (0.125, 0.375); after the next frame it is
  still at (10, 20), not at (10.125, 20.375).
\<close>

theorem ink_trail_velocity_counterexample:
  "particlesRef ink_state = [ink_example]
   \<and> map_sum id ink_positions (step (Frame 16) ink_state) = Inr [(10, 20)]
   \<and> (p_x ink_example + p_vx ink_example, p_y ink_example + p_vy ink_example) = (10.125, 20.375)"
proof -
  have c: "canvasRef (ink_state\<lparr>rafQueue := []\<rparr>) = Some canvas_800_600"
    by (simp add: ink_state_simps)
  have k: "c_context canvas_800_600"
    by (simp add: canvas_800_600_def)
  show ?thesis
    by (simp add: ink_state_simps animate_eq [OF c k] ink_positions_def trail_step_def
        trail_update_def ink_example_def)
qed

section \<open>The spawn throttle of the ink trail\<close>

lemma handleMouseMove_frameCount [simp]:
  "frameCountRef (handleMouseMove x y s) = frameCountRef s"
  by (simp add: handleMouseMove_def Let_def)

lemma handleMouseMove_length:
  "length (particlesRef (handleMouseMove x y s)) =
     length (particlesRef s) + (if even (frameCountRef s) then 1 else 0)"
  by (simp add: handleMouseMove_def Let_def even_iff_mod_2_eq_zero)

lemma mounted_example_simps:
  "frameCountRef mounted_example = 0" "particlesRef mounted_example = []"
  "canvasRef mounted_example = Some canvas_800_600" "rafQueue mounted_example = [1]"
  by (simp_all add: mounted_example_def mount_def Let_def initial_def resizeCanvas_def
      requestAnimationFrame_def canvas_800_600_def)

text \<open>
  C2, as amended. The throttle tests the parity of the frame counter, which only a drawn
  frame advances (by one) and which a pointer move leaves alone. So every pointer move
  spawns at most one ink particle, and it spawns one exactly when the frame counter is
  even: of the moves that arrive with no drawn frame between them, either each one
  spawns a particle or none does.
\<close>

theorem move_throttle_by_frame_parity:
  "(\<exists>s'. run (moves ms) s = Inr s'
        \<and> frameCountRef s' = frameCountRef s
        \<and> length (particlesRef s') =
            length (particlesRef s) + (if even (frameCountRef s) then length ms else 0))
   \<and> (\<forall>c time. canvasRef s = Some c \<and> c_context c \<longrightarrow>
         (\<exists>s'. animate time s = Inr s' \<and> frameCountRef s' = frameCountRef s + 1))"
proof
  show "\<exists>s'. run (moves ms) s = Inr s'
        \<and> frameCountRef s' = frameCountRef s
        \<and> length (particlesRef s') =
            length (particlesRef s) + (if even (frameCountRef s) then length ms else 0)"
  proof (induction ms arbitrary: s)
    case Nil
    show ?case by (simp add: moves_def)
  next
    case (Cons m ms)
    obtain x y where m: "m = (x, y)" by (cases m)
    from Cons.IH [of "handleMouseMove x y s"] show ?case
      by (auto simp: moves_def m handleMouseMove_length)
  qed
  show "\<forall>c time. canvasRef s = Some c \<and> c_context c \<longrightarrow>
         (\<exists>s'. animate time s = Inr s' \<and> frameCountRef s' = frameCountRef s + 1)"
    by (simp add: animate_eq)
qed

theorem move_throttle_by_frame_parity_witness:
  "(\<exists>s'. run (moves [(10, 20), (11, 21)]) mounted_example = Inr s'
        \<and> frameCountRef s' = 0 \<and> length (particlesRef s') = 2)
   \<and> (\<exists>s'. animate 16 mounted_example = Inr s' \<and> frameCountRef s' = 1)"
  using move_throttle_by_frame_parity [of "[(10, 20), (11, 21)]" mounted_example]
  by (simp add: mounted_example_simps numeral_2_eq_2 canvas_800_600_def)

text \<open>
  The claim as stated fails: two successive pointer moves on the freshly mounted
  component (frame counter 0) both spawn a particle.
\<close>

theorem move_throttle_counterexample:
  "map_sum id ink_count (run [MouseMove 10 20, MouseMove 11 21] mounted_example) = Inr 2
   \<and> ink_count mounted_example = 0"
  by (simp add: ink_count_def handleMouseMove_length mounted_example_simps)

section \<open>A frame without a drawing surface\<close>

lemma no_surface_example_simps:
  "canvasRef no_surface_example = None" "rafQueue no_surface_example = [1]"
  by (simp_all add: no_surface_example_def mount_def Let_def initial_def resizeCanvas_def
      requestAnimationFrame_def)

text \<open>
  The third claim as stated fails where the surface is unavailable. The component has
  requested its first frame while the canvas ref is empty. The frame callback returns
  at the first guard: nothing is mutated and nothing is thrown, but the callback has
  consumed the pending request and does not request another one, so the later frames
  call nothing: no further tick is scheduled after the skip. On the canvas that is
  there, the same frame leaves a new request pending.
\<close>

theorem frame_without_surface_stops_loop:
  "rafQueue no_surface_example = [1]
   \<and> animate 16 (no_surface_example\<lparr>rafQueue := []\<rparr>) = Inr (no_surface_example\<lparr>rafQueue := []\<rparr>)
   \<and> step (Frame 16) no_surface_example = Inr (no_surface_example\<lparr>rafQueue := []\<rparr>)
   \<and> run [Frame 16, Frame 33, Frame 50] no_surface_example = Inr (no_surface_example\<lparr>rafQueue := []\<rparr>)
   \<and> rafQueue mounted_example = [1]
   \<and> map_sum id rafQueue (step (Frame 16) mounted_example) = Inr [2]"
proof -
  have c: "canvasRef (mounted_example\<lparr>rafQueue := []\<rparr>) = Some canvas_800_600"
    by (simp add: mounted_example_simps)
  have k: "c_context canvas_800_600"
    by (simp add: canvas_800_600_def)
  have n: "rafNext mounted_example = 1"
    by (simp add: mounted_example_def mount_def Let_def initial_def resizeCanvas_def
        requestAnimationFrame_def)
  have "map_sum id rafQueue (step (Frame 16) mounted_example) = Inr [2]"
    by (simp add: mounted_example_simps animate_eq [OF c k] n)
  then show ?thesis
    by (simp add: no_surface_example_simps mounted_example_simps animate_def)
qed

section \<open>Gold dust\<close>

lemma length_dust_init [simp]: "length (dust_init n R k w h) = n"
  by (induction n arbitrary: k) simp_all

lemma dust_identity_update [simp]: "dust_identity (dust_update t w h p) = dust_identity p"
  by (simp add: dust_identity_def dust_update_def Let_def)

lemma animate_dust:
  "\<exists>s'. animate time s = Inr s'
        \<and> map dust_identity (goldDustRef s') = map dust_identity (goldDustRef s)"
proof (cases "canvasRef s")
  case None
  then show ?thesis by (simp add: animate_skip)
next
  case (Some c)
  show ?thesis
  proof (cases "c_context c")
    case True
    with Some show ?thesis by (simp add: animate_eq)
  next
    case False
    with Some show ?thesis by (simp add: animate_skip)
  qed
qed

lemma run_callbacks_dust:
  "\<exists>s'. run_callbacks hs time s = Inr s'
        \<and> map dust_identity (goldDustRef s') = map dust_identity (goldDustRef s)"
proof (induction hs arbitrary: s)
  case Nil
  show ?case by simp
next
  case (Cons h hs)
  obtain s1 where s1: "animate time s = Inr s1"
    "map dust_identity (goldDustRef s1) = map dust_identity (goldDustRef s)"
    using animate_dust by blast
  from Cons.IH [of s1] s1 show ?case by auto
qed

lemma step_dust:
  "\<exists>s'. step e s = Inr s'
        \<and> map dust_identity (goldDustRef s') = map dust_identity (goldDustRef s)"
proof (cases e)
  case (Frame time)
  from run_callbacks_dust [of "rafQueue s" time "s\<lparr>rafQueue := []\<rparr>"] Frame
  show ?thesis by simp
next
  case (MouseMove x y)
  then show ?thesis by (simp add: handleMouseMove_def Let_def)
next
  case (Click x y)
  then show ?thesis by (simp add: handleClick_def Let_def)
next
  case (Resize w h)
  then show ?thesis by (simp add: resizeCanvas_def Let_def split: option.split)
qed

lemma run_dust:
  "\<exists>s'. run evs s = Inr s'
        \<and> map dust_identity (goldDustRef s') = map dust_identity (goldDustRef s)"
proof (induction evs arbitrary: s)
  case Nil
  show ?case by simp
next
  case (Cons e evs)
  obtain s1 where s1: "step e s = Inr s1"
    "map dust_identity (goldDustRef s1) = map dust_identity (goldDustRef s)"
    using step_dust by blast
  from Cons.IH [of s1] s1 show ?case by auto
qed

lemma goldDustRef_mount:
  "goldDustRef (mount (initial c w h R)) = dust_init 40 R 0 w h"
  by (simp add: mount_def initial_def Let_def resizeCanvas_def requestAnimationFrame_def
      split: option.split)

text \<open>
  C6. The effect that creates the gold dust pushes exactly 40 particles, and whatever
  happens afterwards (frames, pointer moves, clicks, resizes, in any order and number)
  never raises and leaves the pool with the same 40 particles: only their positions
  change.
\<close>

theorem ambient_population_40:
  "length (goldDustRef (mount (initial c w h R))) = 40
   \<and> (\<exists>s'. run evs (mount (initial c w h R)) = Inr s'
          \<and> length (goldDustRef s') = 40
          \<and> map dust_identity (goldDustRef s') = map dust_identity (goldDustRef (mount (initial c w h R))))"
proof -
  let ?s0 = "mount (initial c w h R)"
  have l0: "length (goldDustRef ?s0) = 40"
    by (simp add: goldDustRef_mount)
  obtain s' where s': "run evs ?s0 = Inr s'"
    "map dust_identity (goldDustRef s') = map dust_identity (goldDustRef ?s0)"
    using run_dust by blast
  from s'(2) have "length (goldDustRef s') = length (goldDustRef ?s0)"
    by (rule map_eq_imp_length_eq)
  with l0 s' show ?thesis by simp
qed

lemma dust_update_wrap:
  assumes "0 \<le> width" and "0 \<le> height"
  shows "let x1 = p_x p + sin (t + p_y p * 0.01) * 0.5;
             y1 = p_y p + cos (t + x1 * 0.01) * 0.2;
             q = dust_update t width height p
         in p_x q = (if x1 > width then 0 else if x1 < 0 then width else x1)
          \<and> p_y q = (if y1 > height then 0 else if y1 < 0 then height else y1)"
  using assms by (simp add: dust_update_def Let_def)

text \<open>
  C7. In a drawn frame every gold-dust particle is first moved to \<open>(x1, y1)\<close>; then
  its \<open>x\<close> is exactly 0 if \<open>x1\<close> exceeds the width, exactly the width if \<open>x1\<close>
  is below 0, and \<open>x1\<close> itself otherwise (no clamping), and likewise for \<open>y\<close> and
  the height. The particle stays in the pool at its index and nothing else of it
  changes (no bounce).
\<close>

theorem ambient_wraparound:
  assumes "canvasRef s = Some c" and "c_context c"
  shows "\<exists>s'. animate time s = Inr s'
           \<and> length (goldDustRef s') = length (goldDustRef s)
           \<and> (\<forall>i < length (goldDustRef s).
                 let p = goldDustRef s ! i; q = goldDustRef s' ! i;
                     t = time * 0.001;
                     width = real (c_width c); height = real (c_height c);
                     x1 = p_x p + sin (t + p_y p * 0.01) * 0.5;
                     y1 = p_y p + cos (t + x1 * 0.01) * 0.2
                 in p_x q = (if x1 > width then 0 else if x1 < 0 then width else x1)
                  \<and> p_y q = (if y1 > height then 0 else if y1 < 0 then height else y1)
                  \<and> dust_identity q = dust_identity p)"
proof -
  have "length (goldDustRef (next_frame time c s)) = length (goldDustRef s)"
    by simp
  moreover have "let p = goldDustRef s ! i; q = goldDustRef (next_frame time c s) ! i;
                     t = time * 0.001;
                     width = real (c_width c); height = real (c_height c);
                     x1 = p_x p + sin (t + p_y p * 0.01) * 0.5;
                     y1 = p_y p + cos (t + x1 * 0.01) * 0.2
                 in p_x q = (if x1 > width then 0 else if x1 < 0 then width else x1)
                  \<and> p_y q = (if y1 > height then 0 else if y1 < 0 then height else y1)
                  \<and> dust_identity q = dust_identity p"
    if "i < length (goldDustRef s)" for i
    using that by (simp add: dust_update_wrap [unfolded Let_def] Let_def)
  ultimately show ?thesis
    using animate_eq [OF assms] by blast
qed

lemma dust_state_simps:
  "canvasRef dust_state = Some canvas_400_300" "c_context canvas_400_300"
  "goldDustRef dust_state = [dust_example]"
  by (simp_all add: dust_state_def initial_def canvas_400_300_def)

theorem ambient_wraparound_witness:
  "\<exists>s'. animate 0 dust_state = Inr s'
        \<and> length (goldDustRef s') = 1
        \<and> p_x dust_example + sin (0 + p_y dust_example * 0.01) * 0.5 = 750
        \<and> 750 > real (c_width canvas_400_300)
        \<and> p_x (goldDustRef s' ! 0) = 0"
  using ambient_wraparound [OF dust_state_simps(1,2), of 0]
  by (auto simp: dust_state_simps Let_def dust_example_def canvas_400_300_def)

section \<open>Mountain layers: the stroke traces the fill\<close>

lemma fill_wave_from:
  "fill_wave (5 * j) width cp f t a n b =
     map (\<lambda>k. LineTo (real (5 * k))
                (b - (sin ((real (5 * k) + cp) * f + t * 0.1) * a
                      + sin ((real (5 * k) + cp) * (f * 2.5) + t * 0.2) * (a * 0.3)
                      + cos ((real (5 * k) - cp) * (f * 5)) * n)))
         [j..<width div 5 + 1]"
proof (induction "width div 5 + 1 - j" arbitrary: j)
  case 0
  then have "\<not> 5 * j \<le> width" by (simp add: not_le)
  with 0 show ?case by (subst fill_wave.simps) simp
next
  case (Suc d)
  from Suc.hyps(2) have jl: "j \<le> width div 5" by simp
  then have le: "5 * j \<le> width" by presburger
  have d: "d = width div 5 + 1 - Suc j" using Suc.hyps(2) by simp
  have upt: "[j..<width div 5 + 1] = j # [Suc j..<width div 5 + 1]"
    using jl by (simp add: upt_conv_Cons)
  have nxt: "5 * j + 5 = 5 * Suc j" by simp
  show ?case
    by (subst fill_wave.simps) (simp only: le if_True Let_def nxt Suc.hyps(1) [OF d] upt list.map)
qed

lemma stroke_wave_from:
  "stroke_wave (5 * j) width cp f t a n b =
     map (\<lambda>k. (if 5 * k = 0 then MoveTo else LineTo) (real (5 * k))
                (b - (sin ((real (5 * k) + cp) * f + t * 0.1) * a
                      + sin ((real (5 * k) + cp) * (f * 2.5) + t * 0.2) * (a * 0.3)
                      + cos ((real (5 * k) - cp) * (f * 5)) * n)))
         [j..<width div 5 + 1]"
proof (induction "width div 5 + 1 - j" arbitrary: j)
  case 0
  then have "\<not> 5 * j \<le> width" by (simp add: not_le)
  with 0 show ?case by (subst stroke_wave.simps) simp
next
  case (Suc d)
  from Suc.hyps(2) have jl: "j \<le> width div 5" by simp
  then have le: "5 * j \<le> width" by presburger
  have d: "d = width div 5 + 1 - Suc j" using Suc.hyps(2) by simp
  have upt: "[j..<width div 5 + 1] = j # [Suc j..<width div 5 + 1]"
    using jl by (simp add: upt_conv_Cons)
  have nxt: "5 * j + 5 = 5 * Suc j" by simp
  show ?case
    by (subst stroke_wave.simps)
       (simp only: le if_True Let_def nxt Suc.hyps(1) [OF d] upt list.map if_distrib [of "\<lambda>g. g _ _"] if_distrib [of "\<lambda>g. g _"])
qed

lemma path_points_map_LineTo:
  "path_points (map (\<lambda>x. LineTo (g x) (h x)) xs) = map (\<lambda>x. (g x, h x)) xs"
  by (induction xs) simp_all

lemma path_points_map_MoveTo_LineTo:
  "path_points (map (\<lambda>x. (if c x then MoveTo else LineTo) (g x) (h x)) xs) = map (\<lambda>x. (g x, h x)) xs"
  by (induction xs) simp_all

lemma fill_wave_samples:
  "fill_wave 0 width (parallaxX * l_speed layer) (l_frequency layer) time (l_amplitude layer)
       (l_noise layer) baseY =
     map (\<lambda>x. LineTo (real x) (baseY - height_spec (real x) time parallaxX layer)) (sample_xs width)"
  using fill_wave_from [of 0 width "parallaxX * l_speed layer" "l_frequency layer" time
          "l_amplitude layer" "l_noise layer" baseY]
  by (simp add: sample_xs_def height_spec_def Let_def comp_def mult.commute)

lemma stroke_wave_samples:
  "stroke_wave 0 width (parallaxX * l_speed layer) (l_frequency layer) time (l_amplitude layer)
       (l_noise layer) baseY =
     map (\<lambda>x. (if x = 0 then MoveTo else LineTo) (real x)
                 (baseY - height_spec (real x) time parallaxX layer)) (sample_xs width)"
  using stroke_wave_from [of 0 width "parallaxX * l_speed layer" "l_frequency layer" time
          "l_amplitude layer" "l_noise layer" baseY]
  by (simp add: sample_xs_def height_spec_def Let_def comp_def mult.commute)

text \<open>
  C8. \<open>drawMountain\<close> runs its two loops with the same arguments. The fill loop
  emits a \<open>lineTo\<close> and the stroke loop a \<open>moveTo\<close> (at \<open>x = 0\<close>) or
  \<open>lineTo\<close> at each \<open>x = 0, 5, 10, \<dots>\<close> up to the width, both at the height
  \<open>baseY - (y1 + y2 + y3)\<close> of the specification, so the two paths pass through the
  same points. The call sequence is a function of the five arguments alone.
\<close>

theorem layer_stroke_fill_consistency:
  "let baseY = baseline_spec height time layer;
       cp = parallaxX * l_speed layer;
       F = fill_wave 0 width cp (l_frequency layer) time (l_amplitude layer) (l_noise layer) baseY;
       S = stroke_wave 0 width cp (l_frequency layer) time (l_amplitude layer) (l_noise layer) baseY
   in drawMountain width height layer time parallaxX =
        [BeginPath, MoveTo 0 (real height)] @ F
        @ [LineTo (real width) (real height), ClosePath,
           SetFillStyle (LinearGradient 0 (baseY - l_amplitude layer) 0 (real height)
                           [(0, l_fillGradientStart layer), (1, l_fillGradientEnd layer)]),
           SetGlobalAlpha (l_opacity layer), Fill, SetGlobalAlpha 1, BeginPath]
        @ S @ [SetStrokeStyle (l_strokeColor layer), SetLineWidth 1.5, Stroke]
    \<and> F = map (\<lambda>x. LineTo (real x) (baseY - height_spec (real x) time parallaxX layer))
              (sample_xs width)
    \<and> S = map (\<lambda>x. (if x = 0 then MoveTo else LineTo) (real x)
                      (baseY - height_spec (real x) time parallaxX layer))
              (sample_xs width)
    \<and> path_points S = path_points F
    \<and> map fst (path_points S) = map real (sample_xs width)
    \<and> (\<forall>width' height' layer' time' parallaxX'.
          (width', height', layer', time', parallaxX') = (width, height, layer, time, parallaxX)
          \<longrightarrow> drawMountain width' height' layer' time' parallaxX'
              = drawMountain width height layer time parallaxX)"
  unfolding Let_def
proof (intro conjI)
  show "drawMountain width height layer time parallaxX =
        [BeginPath, MoveTo 0 (real height)]
        @ fill_wave 0 width (parallaxX * l_speed layer) (l_frequency layer) time
            (l_amplitude layer) (l_noise layer) (baseline_spec height time layer)
        @ [LineTo (real width) (real height), ClosePath,
           SetFillStyle (LinearGradient 0 (baseline_spec height time layer - l_amplitude layer) 0 (real height)
                           [(0, l_fillGradientStart layer), (1, l_fillGradientEnd layer)]),
           SetGlobalAlpha (l_opacity layer), Fill, SetGlobalAlpha 1, BeginPath]
        @ stroke_wave 0 width (parallaxX * l_speed layer) (l_frequency layer) time
            (l_amplitude layer) (l_noise layer) (baseline_spec height time layer)
        @ [SetStrokeStyle (l_strokeColor layer), SetLineWidth 1.5, Stroke]"
    by (simp add: drawMountain_def baseline_spec_def Let_def)
qed (simp_all add: fill_wave_samples stroke_wave_samples path_points_map_LineTo
       path_points_map_MoveTo_LineTo comp_def)

lemma sample_xs_10: "sample_xs 10 = [0, 5, 10]"
  by (simp add: sample_xs_def upt_rec)

theorem layer_stroke_fill_consistency_witness:
  "path_points (stroke_wave 0 10 (0 * l_speed layer_example) (l_frequency layer_example) 0
       (l_amplitude layer_example) (l_noise layer_example) (baseline_spec 600 0 layer_example))
   = path_points (fill_wave 0 10 (0 * l_speed layer_example) (l_frequency layer_example) 0
       (l_amplitude layer_example) (l_noise layer_example) (baseline_spec 600 0 layer_example))
   \<and> map fst (path_points (stroke_wave 0 10 (0 * l_speed layer_example) (l_frequency layer_example) 0
       (l_amplitude layer_example) (l_noise layer_example) (baseline_spec 600 0 layer_example)))
     = [0, 5, 10]
   \<and> (10::nat, 600::nat, layer_example, 0::real, 0::real) = (10, 600, layer_example, 0, 0)"
  using layer_stroke_fill_consistency [of 600 0 layer_example 0 10]
  by (simp add: Let_def sample_xs_10)

section \<open>Runs of drawn frames\<close>

lemma readyE:
  assumes "ready s"
  obtains c h where "canvasRef s = Some c" "c_context c" "rafQueue s = [h]"
proof -
  from assms obtain c where c: "canvasRef s = Some c" "c_context c" "length (rafQueue s) = 1"
    by (auto simp: ready_def split: option.splits)
  from c(3) obtain h where "rafQueue s = [h]"
    by (cases "rafQueue s") auto
  with c that show thesis by blast
qed

lemma step_Frame_ready:
  assumes "ready s"
  obtains c where "canvasRef s = Some c" "c_context c"
    "step (Frame time) s = Inr (next_frame time c (s\<lparr>rafQueue := []\<rparr>))"
proof -
  from assms obtain c h where c: "canvasRef s = Some c" "c_context c" "rafQueue s = [h]"
    by (rule readyE)
  have "animate time (s\<lparr>rafQueue := []\<rparr>) = Inr (next_frame time c (s\<lparr>rafQueue := []\<rparr>))"
    using c by (simp add: animate_eq)
  with c have "step (Frame time) s = Inr (next_frame time c (s\<lparr>rafQueue := []\<rparr>))"
    by simp
  with c that show thesis by blast
qed

lemma ready_next_frame:
  "canvasRef s = Some c \<Longrightarrow> c_context c \<Longrightarrow> ready (next_frame time c (s\<lparr>rafQueue := []\<rparr>))"
  by (simp add: ready_def)

lemma handleMouseMove_other [simp]:
  "canvasRef (handleMouseMove x y s) = canvasRef s"
  "rafQueue (handleMouseMove x y s) = rafQueue s"
  "ripplesRef (handleMouseMove x y s) = ripplesRef s"
  "goldDustRef (handleMouseMove x y s) = goldDustRef s"
  by (simp_all add: handleMouseMove_def Let_def)

lemma handleClick_other [simp]:
  "canvasRef (handleClick x y s) = canvasRef s"
  "rafQueue (handleClick x y s) = rafQueue s"
  "particlesRef (handleClick x y s) = particlesRef s"
  "goldDustRef (handleClick x y s) = goldDustRef s"
  "frameCountRef (handleClick x y s) = frameCountRef s"
  by (simp_all add: handleClick_def Let_def)

lemma ready_handleMouseMove [simp]: "ready (handleMouseMove x y s) = ready s"
  by (simp add: ready_def split: option.split)

lemma ready_handleClick [simp]: "ready (handleClick x y s) = ready s"
  by (simp add: ready_def split: option.split)

lemma ready_resize:
  "ready s \<Longrightarrow> ready (if resizeListener (s\<lparr>innerWidth := w, innerHeight := h\<rparr>)
                       then resizeCanvas (s\<lparr>innerWidth := w, innerHeight := h\<rparr>)
                       else s\<lparr>innerWidth := w, innerHeight := h\<rparr>)"
  by (auto simp: ready_def resizeCanvas_def split: option.splits)

lemma run_frames:
  assumes "ready s"
  shows "\<exists>s'. run (map Frame ts) s = Inr s' \<and> ready s'
            \<and> particlesRef s' = (trail_step ^^ length ts) (particlesRef s)
            \<and> ripplesRef s' = (ripple_step ^^ length ts) (ripplesRef s)"
  using assms
proof (induction ts arbitrary: s)
  case Nil
  then show ?case by simp
next
  case (Cons t ts)
  from Cons.prems obtain c where c: "canvasRef s = Some c" "c_context c"
    "step (Frame t) s = Inr (next_frame t c (s\<lparr>rafQueue := []\<rparr>))"
    by (rule step_Frame_ready)
  let ?s1 = "next_frame t c (s\<lparr>rafQueue := []\<rparr>)"
  have "ready ?s1" using c by (simp add: ready_next_frame)
  from Cons.IH [OF this] c(3) show ?case
    by (auto simp: funpow_swap1)
qed

section \<open>Decay of ink particles and ripples\<close>

lemma ripple_update_funpow:
  "(ripple_update ^^ n) r = r\<lparr>r_radius := r_radius r + 1.5 * real n, r_opacity := r_opacity r - 0.01 * real n\<rparr>"
  by (induction n) (simp_all add: ripple_update_def algebra_simps)

lemma ripple_step_mem:
  "r \<in> set rs \<Longrightarrow> 0 < r_opacity (ripple_update r) \<Longrightarrow> ripple_update r \<in> set (ripple_step rs)"
  by (simp add: ripple_step_def)

lemma ripple_funpow_mem:
  "r \<in> set rs \<Longrightarrow> 0 < r_opacity r - 0.01 * real n \<Longrightarrow>
   (ripple_update ^^ n) r \<in> set ((ripple_step ^^ n) rs)"
proof (induction n)
  case 0
  then show ?case by simp
next
  case (Suc n)
  then have "(ripple_update ^^ n) r \<in> set ((ripple_step ^^ n) rs)"
    by (simp add: algebra_simps)
  moreover have "0 < r_opacity (ripple_update ((ripple_update ^^ n) r))"
    using Suc.prems(2) by (simp add: ripple_update_funpow ripple_update_def algebra_simps)
  ultimately show ?case
    by (simp add: ripple_step_mem)
qed

lemma concat_mem_split:
  "x \<in> set xs \<Longrightarrow> \<exists>pre post. concat (map f xs) = pre @ f x @ post"
proof -
  assume "x \<in> set xs"
  then obtain ys zs where "xs = ys @ x # zs" by (auto dest: split_list)
  then have "concat (map f xs) = concat (map f ys) @ f x @ concat (map f zs)" by simp
  then show ?thesis by blast
qed

lemma ctxCalls_next_frame:
  "ctxCalls (next_frame time c s) = ctxCalls s @ frame_calls time c s"
  by (simp add: next_frame_def requestAnimationFrame_def)

lemma frame_calls_ripple:
  assumes "r \<in> set (ripple_step (ripplesRef s))"
  shows "\<exists>pre post. frame_calls time c s = pre @ ripple_draw r @ post"
proof -
  from assms have "r \<in> set (rev (ripple_step (ripplesRef s)))" by simp
  from concat_mem_split [OF this, of ripple_draw] obtain a b where
    ab: "concat (map ripple_draw (rev (ripple_step (ripplesRef s)))) = a @ ripple_draw r @ b"
    by blast
  show ?thesis
    unfolding frame_calls_def Let_def ab
    by (metis append.assoc)
qed

lemma step_Frame_ripples:
  assumes "ready u"
  shows "\<exists>u'. step (Frame time) u = Inr u'
           \<and> ripplesRef u' = filter (\<lambda>r. 0 < r_opacity r) (map ripple_update (ripplesRef u))"
proof -
  from assms obtain c where "step (Frame time) u = Inr (next_frame time c (u\<lparr>rafQueue := []\<rparr>))"
    by (rule step_Frame_ready)
  then show ?thesis by (simp add: ripple_step_def not_le)
qed

text \<open>
  C4. A click at (100, 100) appends one ripple with radius 0 and opacity 0.6. Every
  update adds 1.5 to the radius and subtracts 0.01 from the opacity. After 13 frames
  the ripple (radius 19.5) is drawn with its outer ring only; the 14th frame updates it
  to radius 21 and opacity 0.46, keeps it, and draws the outer ring at radius 21 with
  alpha 0.46 and the inner ring at radius 6 with alpha 0.23. A drawn frame keeps
  exactly the ripples whose updated opacity is positive.
\<close>

theorem ripple_click_scenario:
  assumes "ready s" and "length ts = 13"
  shows "\<exists>r0 s13 s14 pre post.
           ripplesRef (handleClick 100 100 s) = ripplesRef s @ [r0]
         \<and> r_x r0 = 100 \<and> r_y r0 = 100 \<and> r_radius r0 = 0 \<and> r_opacity r0 = 0.6
         \<and> run (Click 100 100 # map Frame ts) s = Inr s13
         \<and> step (Frame t14) s13 = Inr s14
         \<and> (ripple_update ^^ 14) r0 \<in> set (ripplesRef s14)
         \<and> r_radius ((ripple_update ^^ 14) r0) = 21
         \<and> r_opacity ((ripple_update ^^ 14) r0) = 0.46
         \<and> ctxCalls s14 = ctxCalls s13 @ pre @ ripple_draw ((ripple_update ^^ 14) r0) @ post
         \<and> ripple_draw ((ripple_update ^^ 14) r0) =
              [BeginPath, Arc 100 100 21 0 (pi * 2), SetStrokeStyle (r_color r0),
               SetLineWidth 7.4, SetGlobalAlpha 0.46, Stroke,
               BeginPath, Arc 100 100 6 0 (pi * 2), SetStrokeStyle (r_color r0),
               SetLineWidth 1, SetGlobalAlpha 0.23, Stroke]
         \<and> ripple_draw ((ripple_update ^^ 13) r0) =
              [BeginPath, Arc 100 100 19.5 0 (pi * 2), SetStrokeStyle (r_color r0),
               SetLineWidth 7.3, SetGlobalAlpha 0.47, Stroke]
         \<and> (\<forall>r. r_radius (ripple_update r) = r_radius r + 1.5
                \<and> r_opacity (ripple_update r) = r_opacity r - 0.01)
         \<and> (\<forall>u time. ready u \<longrightarrow>
                (\<exists>u'. step (Frame time) u = Inr u'
                   \<and> ripplesRef u' = filter (\<lambda>r. 0 < r_opacity r) (map ripple_update (ripplesRef u))))"
proof -
  define r0 where "r0 = \<lparr>r_x = 100, r_y = 100, r_radius = 0,
      r_maxRadius = 100 + randoms s (randomPos s) * 50, r_opacity = 0.6,
      r_color = (if randoms s (randomPos s + 1) > 0.5 then PALETTE_stoneGreen else PALETTE_stoneBlue)\<rparr>"
  let ?s0 = "handleClick 100 100 s"
  let ?r14 = "(ripple_update ^^ 14) r0"
  have rs0: "ripplesRef ?s0 = ripplesRef s @ [r0]"
    by (simp add: handleClick_def Let_def r0_def)
  have ready0: "ready ?s0" using assms(1) by simp
  from run_frames [OF ready0, of ts] assms(2) obtain s13 where s13:
    "run (map Frame ts) ?s0 = Inr s13" "ready s13"
    "ripplesRef s13 = (ripple_step ^^ 13) (ripplesRef ?s0)"
    by auto
  from s13(2) obtain c where c: "canvasRef s13 = Some c" "c_context c"
    "step (Frame t14) s13 = Inr (next_frame t14 c (s13\<lparr>rafQueue := []\<rparr>))"
    by (rule step_Frame_ready)
  let ?s14 = "next_frame t14 c (s13\<lparr>rafQueue := []\<rparr>)"
  have rs14: "ripplesRef ?s14 = (ripple_step ^^ 14) (ripplesRef ?s0)"
    by (simp add: s13(3) numeral_eq_Suc)
  have mem: "?r14 \<in> set (ripplesRef ?s14)"
    unfolding rs14 by (rule ripple_funpow_mem) (simp_all add: rs0 r0_def)
  then have "?r14 \<in> set (ripple_step (ripplesRef (s13\<lparr>rafQueue := []\<rparr>)))"
    by simp
  from frame_calls_ripple [OF this, of t14 c] obtain pre post where
    "frame_calls t14 c (s13\<lparr>rafQueue := []\<rparr>) = pre @ ripple_draw ?r14 @ post"
    by blast
  then have calls: "ctxCalls ?s14 = ctxCalls s13 @ pre @ ripple_draw ?r14 @ post"
    by (simp add: ctxCalls_next_frame)
  have run13: "run (Click 100 100 # map Frame ts) s = Inr s13"
    using s13(1) by simp
  have vals: "r_radius ?r14 = 21" "r_opacity ?r14 = 0.46"
    by (simp_all add: ripple_update_funpow r0_def)
  have draw14: "ripple_draw ?r14 =
              [BeginPath, Arc 100 100 21 0 (pi * 2), SetStrokeStyle (r_color r0),
               SetLineWidth 7.4, SetGlobalAlpha 0.46, Stroke,
               BeginPath, Arc 100 100 6 0 (pi * 2), SetStrokeStyle (r_color r0),
               SetLineWidth 1, SetGlobalAlpha 0.23, Stroke]"
    by (simp add: ripple_draw_def ripple_update_funpow r0_def)
  have draw13: "ripple_draw ((ripple_update ^^ 13) r0) =
              [BeginPath, Arc 100 100 19.5 0 (pi * 2), SetStrokeStyle (r_color r0),
               SetLineWidth 7.3, SetGlobalAlpha 0.47, Stroke]"
    by (simp add: ripple_draw_def ripple_update_funpow r0_def)
  have upd: "\<forall>r. r_radius (ripple_update r) = r_radius r + 1.5
                \<and> r_opacity (ripple_update r) = r_opacity r - 0.01"
    by (simp add: ripple_update_def)
  have rem: "\<forall>u time. ready u \<longrightarrow>
                (\<exists>u'. step (Frame time) u = Inr u'
                   \<and> ripplesRef u' = filter (\<lambda>r. 0 < r_opacity r) (map ripple_update (ripplesRef u)))"
    using step_Frame_ripples by blast
  have r0_fields: "r_x r0 = 100" "r_y r0 = 100" "r_radius r0 = 0" "r_opacity r0 = 0.6"
    by (simp_all add: r0_def)
  show ?thesis
    using rs0 r0_fields run13 c(3) mem vals calls draw14 draw13 upd rem by blast
qed

lemma ready_mount:
  "c_context c \<Longrightarrow> ready (mount (initial (Some c) w h R))"
  by (simp add: ready_def mount_def initial_def Let_def resizeCanvas_def requestAnimationFrame_def)

lemma ready_mounted_example: "ready mounted_example"
  by (simp add: mounted_example_def ready_mount canvas_800_600_def)

lemma length_timestamps [simp]: "length (timestamps n) = n"
  by (simp add: timestamps_def)

theorem ripple_click_scenario_witness:
  "ready mounted_example \<and> length (timestamps 13) = 13
   \<and> (\<exists>s13 s14 r. run (Click 100 100 # map Frame (timestamps 13)) mounted_example = Inr s13
          \<and> step (Frame 224) s13 = Inr s14
          \<and> r \<in> set (ripplesRef s14) \<and> r_radius r = 21 \<and> r_opacity r = 0.46
          \<and> ripple_draw r =
              [BeginPath, Arc 100 100 21 0 (pi * 2), SetStrokeStyle PALETTE_stoneGreen,
               SetLineWidth 7.4, SetGlobalAlpha 0.46, Stroke,
               BeginPath, Arc 100 100 6 0 (pi * 2), SetStrokeStyle PALETTE_stoneGreen,
               SetLineWidth 1, SetGlobalAlpha 0.23, Stroke])"
proof -
  have len: "length (timestamps 13) = 13" by simp
  from ripple_click_scenario [OF ready_mounted_example len, of 224]
  obtain r0 s13 s14 where *:
    "ripplesRef (handleClick 100 100 mounted_example) = ripplesRef mounted_example @ [r0]"
    "run (Click 100 100 # map Frame (timestamps 13)) mounted_example = Inr s13"
    "step (Frame 224) s13 = Inr s14"
    "(ripple_update ^^ 14) r0 \<in> set (ripplesRef s14)"
    "r_radius ((ripple_update ^^ 14) r0) = 21"
    "r_opacity ((ripple_update ^^ 14) r0) = 0.46"
    "ripple_draw ((ripple_update ^^ 14) r0) =
              [BeginPath, Arc 100 100 21 0 (pi * 2), SetStrokeStyle (r_color r0),
               SetLineWidth 7.4, SetGlobalAlpha 0.46, Stroke,
               BeginPath, Arc 100 100 6 0 (pi * 2), SetStrokeStyle (r_color r0),
               SetLineWidth 1, SetGlobalAlpha 0.23, Stroke]"
    by blast
  have "randoms mounted_example = const_randoms 0.75"
    by (simp add: mounted_example_def mount_def initial_def Let_def resizeCanvas_def
        requestAnimationFrame_def)
  with *(1) have "r_color r0 = PALETTE_stoneGreen"
    by (auto simp: handleClick_def Let_def const_randoms_def)
  with * show ?thesis
    using ready_mounted_example len by metis
qed

lemma ready_ink_size4_state: "ready ink_size4_state"
  by (simp add: ink_size4_state_def ready_mount canvas_800_600_def)

lemma particlesRef_ink_size4_state: "particlesRef ink_size4_state = [ink_size4]"
  by (simp add: ink_size4_state_def handleMouseMove_def Let_def mount_def initial_def
      resizeCanvas_def requestAnimationFrame_def const_randoms_def ink_size4_def)

section \<open>Decay bounds the pools\<close>

lemma strip_pools_fields:
  assumes "strip_pools t = strip_pools s"
  shows "canvasRef t = canvasRef s" "rafQueue t = rafQueue s" "frameCountRef t = frameCountRef s"
    "randoms t = randoms s" "randomPos t = randomPos s"
proof -
  have "canvasRef (strip_pools t) = canvasRef (strip_pools s)"
    "rafQueue (strip_pools t) = rafQueue (strip_pools s)"
    "frameCountRef (strip_pools t) = frameCountRef (strip_pools s)"
    "randoms (strip_pools t) = randoms (strip_pools s)"
    "randomPos (strip_pools t) = randomPos (strip_pools s)"
    using assms by simp_all
  then show "canvasRef t = canvasRef s" "rafQueue t = rafQueue s" "frameCountRef t = frameCountRef s"
    "randoms t = randoms s" "randomPos t = randomPos s"
    by (simp_all add: strip_pools_def)
qed

lemma strip_pools_ready: "strip_pools t = strip_pools s \<Longrightarrow> ready t = ready s"
  using strip_pools_fields(1,2) [of t s] by (simp add: ready_def split: option.split)

lemma strip_pools_next_frame:
  "strip_pools (next_frame time c s) = strip_pools (next_frame time c (strip_pools s))"
  by (simp add: strip_pools_def next_frame_def requestAnimationFrame_def)

lemma strip_pools_rafQueue:
  "strip_pools (s\<lparr>rafQueue := q\<rparr>) = (strip_pools s)\<lparr>rafQueue := q\<rparr>"
  by (simp add: strip_pools_def)

lemma strip_pools_handleMouseMove:
  "strip_pools (handleMouseMove x y s) = strip_pools (handleMouseMove x y (strip_pools s))"
  by (simp add: strip_pools_def handleMouseMove_def Let_def)

lemma strip_pools_handleClick:
  "strip_pools (handleClick x y s) = strip_pools (handleClick x y (strip_pools s))"
  by (simp add: strip_pools_def handleClick_def Let_def)

lemma strip_pools_resize:
  "strip_pools (if resizeListener (s\<lparr>innerWidth := w, innerHeight := h\<rparr>)
                then resizeCanvas (s\<lparr>innerWidth := w, innerHeight := h\<rparr>)
                else s\<lparr>innerWidth := w, innerHeight := h\<rparr>)
   = (let u = (strip_pools s)\<lparr>innerWidth := w, innerHeight := h\<rparr>
      in if resizeListener u then resizeCanvas u else u)"
  by (simp add: strip_pools_def resizeCanvas_def Let_def split: option.split)

lemma trail_step_append: "trail_step (A @ ps) = trail_step A @ trail_step ps"
  by (simp add: trail_step_def)

lemma ripple_step_append: "ripple_step (B @ rs) = ripple_step B @ ripple_step rs"
  by (simp add: ripple_step_def)

lemma length_trail_step: "length (trail_step ps) \<le> length ps"
  by (simp add: trail_step_def)

lemma length_ripple_step: "length (ripple_step rs) \<le> length rs"
  by (simp add: ripple_step_def)

lemma particlesRef_handleMouseMove_append:
  "particlesRef (handleMouseMove x y s) =
     particlesRef s @ particlesRef (handleMouseMove x y (strip_pools s))"
  by (simp add: handleMouseMove_def Let_def strip_pools_def)

lemma ripplesRef_handleClick_append:
  "ripplesRef (handleClick x y s) =
     ripplesRef s @ ripplesRef (handleClick x y (strip_pools s))"
  by (simp add: handleClick_def Let_def strip_pools_def)

lemma step_split:
  assumes "ready s" and "strip_pools t = strip_pools s"
    and "particlesRef s = A @ particlesRef t" and "ripplesRef s = B @ ripplesRef t"
  shows "\<exists>s' t'. step e s = Inr s' \<and> step e t = Inr t'
           \<and> ready s' \<and> strip_pools t' = strip_pools s'
           \<and> particlesRef s' = (trail_step ^^ frames_in [e]) A @ particlesRef t'
           \<and> ripplesRef s' = (ripple_step ^^ frames_in [e]) B @ ripplesRef t'
           \<and> length (particlesRef t') \<le> length (particlesRef t) + moves_in [e]
           \<and> length (ripplesRef t') \<le> length (ripplesRef t) + clicks_in [e]"
proof (cases e)
  case (Frame time)
  have rt: "ready t" using assms(1) strip_pools_ready [OF assms(2)] by simp
  from assms(1) obtain c where c: "canvasRef s = Some c" "c_context c"
    "step (Frame time) s = Inr (next_frame time c (s\<lparr>rafQueue := []\<rparr>))"
    by (rule step_Frame_ready)
  from rt obtain c' where c': "canvasRef t = Some c'" "c_context c'"
    "step (Frame time) t = Inr (next_frame time c' (t\<lparr>rafQueue := []\<rparr>))"
    by (rule step_Frame_ready)
  have cc: "c' = c" using c(1) c'(1) strip_pools_fields(1) [OF assms(2)] by simp
  let ?s' = "next_frame time c (s\<lparr>rafQueue := []\<rparr>)"
  let ?t' = "next_frame time c (t\<lparr>rafQueue := []\<rparr>)"
  have "strip_pools ?t' = strip_pools (next_frame time c (strip_pools (t\<lparr>rafQueue := []\<rparr>)))"
    by (rule strip_pools_next_frame)
  also have "\<dots> = strip_pools (next_frame time c (strip_pools (s\<lparr>rafQueue := []\<rparr>)))"
    by (simp add: strip_pools_rafQueue assms(2))
  also have "\<dots> = strip_pools ?s'"
    by (rule strip_pools_next_frame [symmetric])
  finally have st: "strip_pools ?t' = strip_pools ?s'" .
  have "ready ?s'" using c by (simp add: ready_next_frame)
  with c c' cc st show ?thesis
    by (simp add: Frame assms(3,4) trail_step_append ripple_step_append
        length_trail_step length_ripple_step)
next
  case (MouseMove x y)
  have "strip_pools (handleMouseMove x y t) = strip_pools (handleMouseMove x y s)"
    using assms(2) strip_pools_handleMouseMove [of x y t] strip_pools_handleMouseMove [of x y s]
    by simp
  moreover have "particlesRef (handleMouseMove x y s) = A @ particlesRef (handleMouseMove x y t)"
    using particlesRef_handleMouseMove_append [of x y s] particlesRef_handleMouseMove_append [of x y t]
    by (simp add: assms(2,3))
  moreover have "length (particlesRef (handleMouseMove x y t)) \<le> length (particlesRef t) + 1"
    by (simp add: handleMouseMove_length)
  ultimately show ?thesis using assms(1,4)
    by (simp add: MouseMove)
next
  case (Click x y)
  have "strip_pools (handleClick x y t) = strip_pools (handleClick x y s)"
    using assms(2) strip_pools_handleClick [of x y t] strip_pools_handleClick [of x y s]
    by simp
  moreover have "ripplesRef (handleClick x y s) = B @ ripplesRef (handleClick x y t)"
    using ripplesRef_handleClick_append [of x y s] ripplesRef_handleClick_append [of x y t]
    by (simp add: assms(2,4))
  moreover have "length (ripplesRef (handleClick x y t)) \<le> length (ripplesRef t) + 1"
    by (simp add: handleClick_def Let_def)
  ultimately show ?thesis using assms(1,3)
    by (simp add: Click)
next
  case (Resize w h)
  let ?f = "\<lambda>u. if resizeListener (u\<lparr>innerWidth := w, innerHeight := h\<rparr>)
                then resizeCanvas (u\<lparr>innerWidth := w, innerHeight := h\<rparr>)
                else u\<lparr>innerWidth := w, innerHeight := h\<rparr>"
  have "strip_pools (?f t) = strip_pools (?f s)"
    unfolding strip_pools_resize by (simp add: assms(2))
  moreover have "particlesRef (?f u) = particlesRef u" "ripplesRef (?f u) = ripplesRef u" for u
    by (simp_all add: resizeCanvas_def split: option.split)
  moreover have "ready (?f s)" using assms(1) by (rule ready_resize)
  ultimately show ?thesis using assms(3,4)
    by (simp add: Resize Let_def)
qed

lemma frames_in_Cons: "frames_in (e # evs) = frames_in [e] + frames_in evs"
  by (cases e) simp_all

lemma moves_in_Cons: "moves_in (e # evs) = moves_in [e] + moves_in evs"
  by (cases e) simp_all

lemma clicks_in_Cons: "clicks_in (e # evs) = clicks_in [e] + clicks_in evs"
  by (cases e) simp_all

lemma run_split:
  assumes "ready s" and "strip_pools t = strip_pools s"
    and "particlesRef s = A @ particlesRef t" and "ripplesRef s = B @ ripplesRef t"
  shows "\<exists>s' t'. run evs s = Inr s' \<and> run evs t = Inr t'
           \<and> ready s' \<and> strip_pools t' = strip_pools s'
           \<and> particlesRef s' = (trail_step ^^ frames_in evs) A @ particlesRef t'
           \<and> ripplesRef s' = (ripple_step ^^ frames_in evs) B @ ripplesRef t'
           \<and> length (particlesRef t') \<le> length (particlesRef t) + moves_in evs
           \<and> length (ripplesRef t') \<le> length (ripplesRef t) + clicks_in evs"
  using assms
proof (induction evs arbitrary: s t A B)
  case Nil
  then show ?case by simp
next
  case (Cons e evs)
  from step_split [OF Cons.prems, of e] obtain s1 t1 where 1:
    "step e s = Inr s1" "step e t = Inr t1" "ready s1" "strip_pools t1 = strip_pools s1"
    "particlesRef s1 = (trail_step ^^ frames_in [e]) A @ particlesRef t1"
    "ripplesRef s1 = (ripple_step ^^ frames_in [e]) B @ ripplesRef t1"
    "length (particlesRef t1) \<le> length (particlesRef t) + moves_in [e]"
    "length (ripplesRef t1) \<le> length (ripplesRef t) + clicks_in [e]"
    by blast
  from Cons.IH [OF 1(3-6)] obtain s' t' where 2:
    "run evs s1 = Inr s'" "run evs t1 = Inr t'" "ready s'" "strip_pools t' = strip_pools s'"
    "particlesRef s' = (trail_step ^^ frames_in evs) ((trail_step ^^ frames_in [e]) A) @ particlesRef t'"
    "ripplesRef s' = (ripple_step ^^ frames_in evs) ((ripple_step ^^ frames_in [e]) B) @ ripplesRef t'"
    "length (particlesRef t') \<le> length (particlesRef t1) + moves_in evs"
    "length (ripplesRef t') \<le> length (ripplesRef t1) + clicks_in evs"
    by blast
  have f: "frames_in (e # evs) = frames_in evs + frames_in [e]"
    by (subst frames_in_Cons) simp
  have m: "moves_in (e # evs) = moves_in [e] + moves_in evs"
    by (rule moves_in_Cons)
  have k: "clicks_in (e # evs) = clicks_in [e] + clicks_in evs"
    by (rule clicks_in_Cons)
  have "run (e # evs) s = Inr s'" "run (e # evs) t = Inr t'"
    using 1(1,2) 2(1,2) by simp_all
  moreover have "particlesRef s' = (trail_step ^^ frames_in (e # evs)) A @ particlesRef t'"
    unfolding f funpow_add using 2(5) by simp
  moreover have "ripplesRef s' = (ripple_step ^^ frames_in (e # evs)) B @ ripplesRef t'"
    unfolding f funpow_add using 2(6) by simp
  moreover have "length (particlesRef t') \<le> length (particlesRef t) + moves_in (e # evs)"
    unfolding m using 1(7) 2(7) by linarith
  moreover have "length (ripplesRef t') \<le> length (ripplesRef t) + clicks_in (e # evs)"
    unfolding k using 1(8) 2(8) by linarith
  ultimately show ?case using 2(3,4) by blast
qed

lemma trail_step_bound:
  "list_all (\<lambda>p. p_life p \<le> M) qs \<Longrightarrow> list_all (\<lambda>p. p_life p \<le> M - 0.02) (trail_step qs)"
  by (auto simp: trail_step_def trail_update_def list_all_iff)

lemma trail_funpow_bound:
  "list_all (\<lambda>p. p_life p \<le> L) ps \<Longrightarrow>
   list_all (\<lambda>p. p_life p \<le> L - 0.02 * real n) ((trail_step ^^ n) ps)"
proof (induction n)
  case 0
  then show ?case by simp
next
  case (Suc n)
  then have "list_all (\<lambda>p. p_life p \<le> L - 0.02 * real n) ((trail_step ^^ n) ps)"
    by simp
  from trail_step_bound [OF this]
  have "list_all (\<lambda>p. p_life p \<le> L - 0.02 * real n - 0.02) (trail_step ((trail_step ^^ n) ps))" .
  moreover have "L - 0.02 * real n - 0.02 = L - 0.02 * real (Suc n)"
    by (simp add: algebra_simps)
  ultimately show ?case by (simp only: funpow.simps o_apply)
qed

lemma trail_step_empty:
  "list_all (\<lambda>p. p_life p \<le> 0.02) ps \<Longrightarrow> trail_step ps = []"
  by (auto simp: trail_step_def trail_update_def list_all_iff filter_empty_conv)

lemma trail_funpow_empty:
  assumes "list_all (\<lambda>p. p_life p \<le> 1) ps" and "50 \<le> n"
  shows "(trail_step ^^ n) ps = []"
proof -
  from assms(2) obtain m where n: "n = Suc m" and m: "49 \<le> m"
    by (cases n) auto
  from trail_funpow_bound [OF assms(1), of m]
  have "list_all (\<lambda>p. p_life p \<le> 0.02) ((trail_step ^^ m) ps)"
  proof (rule list.pred_mono_strong)
    fix p :: particle
    assume "p_life p \<le> 1 - 0.02 * real m"
    moreover have "49 \<le> real m" using m by simp
    ultimately show "p_life p \<le> 0.02" by simp
  qed
  then show ?thesis by (simp add: n trail_step_empty)
qed

lemma ripple_step_bound:
  "list_all (\<lambda>r. r_opacity r \<le> M) qs \<Longrightarrow> list_all (\<lambda>r. r_opacity r \<le> M - 0.01) (ripple_step qs)"
  by (auto simp: ripple_step_def ripple_update_def list_all_iff)

lemma ripple_funpow_bound:
  "list_all (\<lambda>r. r_opacity r \<le> L) rs \<Longrightarrow>
   list_all (\<lambda>r. r_opacity r \<le> L - 0.01 * real n) ((ripple_step ^^ n) rs)"
proof (induction n)
  case 0
  then show ?case by simp
next
  case (Suc n)
  then have "list_all (\<lambda>r. r_opacity r \<le> L - 0.01 * real n) ((ripple_step ^^ n) rs)"
    by simp
  from ripple_step_bound [OF this]
  have "list_all (\<lambda>r. r_opacity r \<le> L - 0.01 * real n - 0.01) (ripple_step ((ripple_step ^^ n) rs))" .
  moreover have "L - 0.01 * real n - 0.01 = L - 0.01 * real (Suc n)"
    by (simp add: algebra_simps)
  ultimately show ?case by (simp only: funpow.simps o_apply)
qed

lemma ripple_step_empty:
  "list_all (\<lambda>r. r_opacity r \<le> 0.01) rs \<Longrightarrow> ripple_step rs = []"
  by (auto simp: ripple_step_def ripple_update_def list_all_iff filter_empty_conv)

lemma ripple_funpow_empty:
  assumes "list_all (\<lambda>r. r_opacity r \<le> 0.6) rs" and "60 \<le> n"
  shows "(ripple_step ^^ n) rs = []"
proof -
  from assms(2) obtain m where n: "n = Suc m" and m: "59 \<le> m"
    by (cases n) auto
  from ripple_funpow_bound [OF assms(1), of m]
  have "list_all (\<lambda>r. r_opacity r \<le> 0.01) ((ripple_step ^^ m) rs)"
  proof (rule list.pred_mono_strong)
    fix r :: ripple
    assume "r_opacity r \<le> 0.6 - 0.01 * real m"
    moreover have "59 \<le> real m" using m by simp
    ultimately show "r_opacity r \<le> 0.01" by simp
  qed
  then show ?thesis by (simp add: n ripple_step_empty)
qed

lemma trail_step_le_1:
  "list_all (\<lambda>p. p_life p \<le> 1) ps \<Longrightarrow> list_all (\<lambda>p. p_life p \<le> 1) (trail_step ps)"
  by (auto simp: trail_step_def trail_update_def list_all_iff)

lemma ripple_step_le_06:
  "list_all (\<lambda>r. r_opacity r \<le> 0.6) rs \<Longrightarrow> list_all (\<lambda>r. r_opacity r \<le> 0.6) (ripple_step rs)"
  by (auto simp: ripple_step_def ripple_update_def list_all_iff)

lemma step_inv:
  assumes "ready s" and "pools_bounded s"
  shows "\<exists>s'. step e s = Inr s' \<and> ready s' \<and> pools_bounded s'"
proof (cases e)
  case (Frame time)
  from assms(1) obtain c where c: "canvasRef s = Some c" "c_context c"
    "step (Frame time) s = Inr (next_frame time c (s\<lparr>rafQueue := []\<rparr>))"
    by (rule step_Frame_ready)
  moreover have "ready (next_frame time c (s\<lparr>rafQueue := []\<rparr>))"
    using c by (simp add: ready_next_frame)
  moreover have "pools_bounded (next_frame time c (s\<lparr>rafQueue := []\<rparr>))"
  proof -
    have p: "particlesRef (next_frame time c (s\<lparr>rafQueue := []\<rparr>)) = trail_step (particlesRef s)"
      and r: "ripplesRef (next_frame time c (s\<lparr>rafQueue := []\<rparr>)) = ripple_step (ripplesRef s)"
      by simp_all
    show ?thesis
      using assms(2) unfolding pools_bounded_def p r
      by (blast intro: trail_step_le_1 ripple_step_le_06)
  qed
  ultimately show ?thesis using Frame by simp
next
  case (MouseMove x y)
  have "pools_bounded (handleMouseMove x y s)"
    using assms(2) by (simp add: pools_bounded_def handleMouseMove_def Let_def)
  with assms(1) MouseMove show ?thesis by simp
next
  case (Click x y)
  have "pools_bounded (handleClick x y s)"
    using assms(2) by (simp add: pools_bounded_def handleClick_def Let_def)
  with assms(1) Click show ?thesis by simp
next
  case (Resize w h)
  let ?f = "\<lambda>u. if resizeListener (u\<lparr>innerWidth := w, innerHeight := h\<rparr>)
                then resizeCanvas (u\<lparr>innerWidth := w, innerHeight := h\<rparr>)
                else u\<lparr>innerWidth := w, innerHeight := h\<rparr>"
  have "particlesRef (?f s) = particlesRef s" "ripplesRef (?f s) = ripplesRef s"
    by (simp_all add: resizeCanvas_def split: option.split)
  then have "pools_bounded (?f s)"
    using assms(2) by (simp add: pools_bounded_def)
  moreover have "ready (?f s)" using assms(1) by (rule ready_resize)
  ultimately show ?thesis using Resize by (simp add: Let_def)
qed

lemma run_inv:
  assumes "ready s" and "pools_bounded s"
  shows "\<exists>s'. run evs s = Inr s' \<and> ready s' \<and> pools_bounded s'"
  using assms
proof (induction evs arbitrary: s)
  case Nil
  then show ?case by simp
next
  case (Cons e evs)
  from step_inv [OF Cons.prems, of e] obtain s1 where
    "step e s = Inr s1" "ready s1" "pools_bounded s1" by blast
  with Cons.IH [of s1] show ?case by auto
qed

text \<open>
  C9. From a state in which frames are drawn and whose entities are within their spawn
  values, every run of events returns (no error, and every loop terminates by
  construction), and it leads to such a state again. After the run each decaying pool
  is what is left of the entities that were there at the start, followed by the pool
  the same run builds from empty pools; nothing is left of the former once the run has
  drawn 50 frames (ink particles) or 60 frames (ripples), and the latter holds at most
  one entity per pointer move or click of the run. So at any moment the ink pool holds
  at most as many particles as there were pointer moves since the 50th most recent
  frame, and the ripple pool as many ripples as clicks since the 60th most recent.
\<close>

theorem decay_bounds:
  assumes "ready s" and "pools_bounded s"
  shows "\<exists>s' t'. run evs s = Inr s'
           \<and> run evs (s\<lparr>particlesRef := [], ripplesRef := []\<rparr>) = Inr t'
           \<and> ready s' \<and> pools_bounded s'
           \<and> particlesRef s' = (trail_step ^^ frames_in evs) (particlesRef s) @ particlesRef t'
           \<and> ripplesRef s' = (ripple_step ^^ frames_in evs) (ripplesRef s) @ ripplesRef t'
           \<and> length (particlesRef t') \<le> moves_in evs
           \<and> length (ripplesRef t') \<le> clicks_in evs
           \<and> (50 \<le> frames_in evs \<longrightarrow> (trail_step ^^ frames_in evs) (particlesRef s) = [])
           \<and> (60 \<le> frames_in evs \<longrightarrow> (ripple_step ^^ frames_in evs) (ripplesRef s) = [])"
proof -
  let ?t = "s\<lparr>particlesRef := [], ripplesRef := []\<rparr>"
  have st: "strip_pools ?t = strip_pools s"
    by (simp add: strip_pools_def)
  have ps: "particlesRef s = particlesRef s @ particlesRef ?t"
    and rs: "ripplesRef s = ripplesRef s @ ripplesRef ?t"
    by simp_all
  from run_split [OF assms(1) st ps rs, of evs] obtain s' t' where 1:
    "run evs s = Inr s'" "run evs ?t = Inr t'" "ready s'"
    "particlesRef s' = (trail_step ^^ frames_in evs) (particlesRef s) @ particlesRef t'"
    "ripplesRef s' = (ripple_step ^^ frames_in evs) (ripplesRef s) @ ripplesRef t'"
    "length (particlesRef t') \<le> length (particlesRef ?t) + moves_in evs"
    "length (ripplesRef t') \<le> length (ripplesRef ?t) + clicks_in evs"
    by blast
  from run_inv [OF assms, of evs] 1(1) have 2: "pools_bounded s'" by simp
  have 3: "50 \<le> frames_in evs \<longrightarrow> (trail_step ^^ frames_in evs) (particlesRef s) = []"
    using assms(2) unfolding pools_bounded_def by (blast intro: trail_funpow_empty)
  have 4: "60 \<le> frames_in evs \<longrightarrow> (ripple_step ^^ frames_in evs) (ripplesRef s) = []"
    using assms(2) unfolding pools_bounded_def by (blast intro: ripple_funpow_empty)
  from 1(6,7) have 5: "length (particlesRef t') \<le> moves_in evs" "length (ripplesRef t') \<le> clicks_in evs"
    by simp_all
  from 1(1-5) 2 3 4 5 show ?thesis by blast
qed

lemma frames_in_map_Frame [simp]: "frames_in (map Frame ts) = length ts"
  by (induction ts) simp_all

lemma moves_in_map_Frame [simp]: "moves_in (map Frame ts) = 0"
  by (induction ts) simp_all

lemma clicks_in_map_Frame [simp]: "clicks_in (map Frame ts) = 0"
  by (induction ts) simp_all

lemma ink_and_ripple_state_simps:
  "ready ink_and_ripple_state" "pools_bounded ink_and_ripple_state"
  "length (particlesRef ink_and_ripple_state) = 1" "length (ripplesRef ink_and_ripple_state) = 1"
proof -
  show "ready ink_and_ripple_state"
    by (simp add: ink_and_ripple_state_def ready_ink_size4_state)
  have r: "ripplesRef ink_size4_state = []"
    by (simp add: ink_size4_state_def mount_def initial_def Let_def resizeCanvas_def
        requestAnimationFrame_def)
  show "pools_bounded ink_and_ripple_state"
    by (simp add: pools_bounded_def ink_and_ripple_state_def particlesRef_ink_size4_state
        ink_size4_def handleClick_def Let_def r)
  show "length (particlesRef ink_and_ripple_state) = 1"
    by (simp add: ink_and_ripple_state_def particlesRef_ink_size4_state)
  show "length (ripplesRef ink_and_ripple_state) = 1"
    by (simp add: ink_and_ripple_state_def handleClick_def Let_def r)
qed

theorem decay_bounds_witness:
  "ready ink_and_ripple_state \<and> pools_bounded ink_and_ripple_state
   \<and> length (particlesRef ink_and_ripple_state) = 1
   \<and> length (ripplesRef ink_and_ripple_state) = 1
   \<and> 50 \<le> frames_in (map Frame (timestamps 60))
   \<and> 60 \<le> frames_in (map Frame (timestamps 60))
   \<and> (\<exists>s'. run (map Frame (timestamps 60)) ink_and_ripple_state = Inr s'
          \<and> particlesRef s' = [] \<and> ripplesRef s' = [])"
  using decay_bounds [OF ink_and_ripple_state_simps(1,2), of "map Frame (timestamps 60)"]
  by (auto simp: ink_and_ripple_state_simps)

section \<open>The maximum radius of a ripple is never read\<close>

lemma forget_ripple_update: "forget_maxRadius (ripple_update r) = ripple_update (forget_maxRadius r)"
  by (simp add: forget_maxRadius_def ripple_update_def)

lemma ripple_draw_forget: "ripple_draw (forget_maxRadius r) = ripple_draw r"
  by (simp add: forget_maxRadius_def ripple_draw_def)

lemma r_opacity_forget [simp]: "r_opacity (forget_maxRadius r) = r_opacity r"
  by (simp add: forget_maxRadius_def)

lemma r_radius_forget [simp]: "r_radius (forget_maxRadius r) = r_radius r"
  by (simp add: forget_maxRadius_def)

lemma forget_twice [simp]: "forget_maxRadius (forget_maxRadius r) = forget_maxRadius r"
  by (simp add: forget_maxRadius_def)

lemma ripple_step_forget: "ripple_step (map forget_maxRadius rs) = map forget_maxRadius (ripple_step rs)"
  by (induction rs) (simp_all add: ripple_step_def forget_ripple_update [symmetric])

lemma ripple_draws_forget:
  "concat (map ripple_draw (rev (map forget_maxRadius rs))) = concat (map ripple_draw (rev rs))"
  by (simp add: rev_map comp_def ripple_draw_forget)

lemma forget_state_fields [simp]:
  "canvasRef (forget_state s) = canvasRef s"
  "rafQueue (forget_state s) = rafQueue s"
  "ctxCalls (forget_state s) = ctxCalls s"
  "particlesRef (forget_state s) = particlesRef s"
  "goldDustRef (forget_state s) = goldDustRef s"
  "ripplesRef (forget_state s) = map forget_maxRadius (ripplesRef s)"
  by (simp_all add: forget_state_def)

lemma forget_state_twice [simp]: "forget_state (forget_state s) = forget_state s"
  by (simp add: forget_state_def comp_def)

lemma frame_calls_forget: "frame_calls time c (forget_state s) = frame_calls time c s"
  by (simp add: frame_calls_def forget_state_def ripple_step_forget ripple_draws_forget)

lemma next_frame_forget: "next_frame time c (forget_state s) = forget_state (next_frame time c s)"
  by (simp add: next_frame_def requestAnimationFrame_def frame_calls_forget ripple_step_forget)
     (simp add: forget_state_def)

lemma animate_forget: "animate time (forget_state s) = map_sum id forget_state (animate time s)"
proof (cases "canvasRef s")
  case None
  then show ?thesis by (simp add: animate_skip)
next
  case (Some c)
  show ?thesis
  proof (cases "c_context c")
    case True
    with Some show ?thesis by (simp add: animate_eq next_frame_forget)
  next
    case False
    with Some show ?thesis by (simp add: animate_skip)
  qed
qed

lemma forget_state_rafQueue:
  "forget_state (s\<lparr>rafQueue := q\<rparr>) = (forget_state s)\<lparr>rafQueue := q\<rparr>"
  by (simp add: forget_state_def)

lemma run_callbacks_forget:
  "run_callbacks hs time (forget_state s) = map_sum id forget_state (run_callbacks hs time s)"
proof (induction hs arbitrary: s)
  case Nil
  show ?case by simp
next
  case (Cons h hs)
  show ?case
  proof (cases "animate time s")
    case (Inl e)
    then show ?thesis by (simp add: animate_forget)
  next
    case (Inr s1)
    then show ?thesis by (simp add: animate_forget Cons.IH)
  qed
qed

lemma handleMouseMove_forget:
  "handleMouseMove x y (forget_state s) = forget_state (handleMouseMove x y s)"
  by (simp add: handleMouseMove_def forget_state_def Let_def)

lemma handleClick_forget:
  "forget_state (handleClick x y (forget_state s)) = forget_state (handleClick x y s)"
  by (simp add: handleClick_def forget_state_def Let_def forget_maxRadius_def comp_def)

lemma step_forget:
  "map_sum id forget_state (step e (forget_state s)) = map_sum id forget_state (step e s)"
proof (cases e)
  case (Frame time)
  have "step (Frame time) (forget_state s)
        = run_callbacks (rafQueue s) time (forget_state (s\<lparr>rafQueue := []\<rparr>))"
    by (simp add: forget_state_rafQueue)
  also have "\<dots> = map_sum id forget_state (step (Frame time) s)"
    by (simp add: run_callbacks_forget)
  finally show ?thesis
    by (simp add: Frame sum.map_comp comp_def sum.map_ident id_def)
next
  case (MouseMove x y)
  then show ?thesis by (simp add: handleMouseMove_forget)
next
  case (Click x y)
  then show ?thesis by (simp add: handleClick_forget)
next
  case (Resize w h)
  then show ?thesis
    by (simp add: Let_def forget_state_def resizeCanvas_def comp_def split: option.split)
qed

lemma run_forget:
  "map_sum id forget_state (run evs (forget_state s)) = map_sum id forget_state (run evs s)"
proof (induction evs arbitrary: s)
  case Nil
  show ?case by simp
next
  case (Cons e evs)
  show ?case
  proof (cases "step e s")
    case (Inl err)
    with step_forget [of e s] have "step e (forget_state s) = Inl err"
      by (cases "step e (forget_state s)") simp_all
    with Inl show ?thesis by simp
  next
    case (Inr s1)
    with step_forget [of e s] obtain s1' where s1': "step e (forget_state s) = Inr s1'"
      "forget_state s1' = forget_state s1"
      by (cases "step e (forget_state s)") simp_all
    have "map_sum id forget_state (run evs s1') = map_sum id forget_state (run evs (forget_state s1'))"
      by (rule Cons.IH [symmetric])
    also have "\<dots> = map_sum id forget_state (run evs s1)"
      unfolding s1'(2) by (rule Cons.IH)
    finally have "map_sum id forget_state (run evs s1') = map_sum id forget_state (run evs s1)" .
    moreover have "run (e # evs) s = run evs s1" using Inr by simp
    moreover have "run (e # evs) (forget_state s) = run evs s1'" using s1'(1) by simp
    ultimately show ?thesis by (simp only:)
  qed
qed

text \<open>
  C10. Two states that differ only in the \<open>maxRadius\<close> of their ripples go, under
  any sequence of events, to states that again differ only there (or raise the same
  error, which never happens): the calls made on the context are the same, the radius
  and opacity of the ripples are the same at every moment, and so are the frames in
  which ripples are removed. A clicked ripple starts with opacity 0.6 and radius 0
  whatever the random draw behind its \<open>maxRadius\<close>.
\<close>

theorem maxRadius_never_read:
  assumes "forget_state s1 = forget_state s2"
  shows "map_sum id forget_state (run evs s1) = map_sum id forget_state (run evs s2)
       \<and> map_sum id ctxCalls (run evs s1) = map_sum id ctxCalls (run evs s2)
       \<and> map_sum id ripple_trajectory (run evs s1) = map_sum id ripple_trajectory (run evs s2)
       \<and> r_opacity (last (ripplesRef (handleClick x y s1))) = 0.6
       \<and> r_radius (last (ripplesRef (handleClick x y s1))) = 0"
proof -
  have "map_sum id forget_state (run evs s1) = map_sum id forget_state (run evs (forget_state s1))"
    by (rule run_forget [symmetric])
  also have "\<dots> = map_sum id forget_state (run evs s2)"
    unfolding assms by (rule run_forget)
  finally have eq: "map_sum id forget_state (run evs s1) = map_sum id forget_state (run evs s2)" .
  have c: "ctxCalls = ctxCalls \<circ> forget_state"
    by (simp add: fun_eq_iff)
  have t: "ripple_trajectory = ripple_trajectory \<circ> forget_state"
    by (simp add: fun_eq_iff ripple_trajectory_def comp_def)
  have "map_sum id ctxCalls (run evs s1) = map_sum id ctxCalls (map_sum id forget_state (run evs s1))"
    by (subst c) (simp add: sum.map_comp)
  also have "\<dots> = map_sum id ctxCalls (run evs s2)"
    unfolding eq by (subst (2) c) (simp add: sum.map_comp)
  finally have calls: "map_sum id ctxCalls (run evs s1) = map_sum id ctxCalls (run evs s2)" .
  have "map_sum id ripple_trajectory (run evs s1)
        = map_sum id ripple_trajectory (map_sum id forget_state (run evs s1))"
    by (subst t) (simp add: sum.map_comp)
  also have "\<dots> = map_sum id ripple_trajectory (run evs s2)"
    unfolding eq by (subst (2) t) (simp add: sum.map_comp)
  finally have traj: "map_sum id ripple_trajectory (run evs s1) = map_sum id ripple_trajectory (run evs s2)" .
  show ?thesis using eq calls traj
    by (simp add: handleClick_def Let_def)
qed

lemma ripplesRef_ripple_state_a:
  "ripplesRef ripple_state_a =
     [\<lparr>r_x = 100, r_y = 100, r_radius = 0, r_maxRadius = 137.5, r_opacity = 0.6,
       r_color = PALETTE_stoneGreen\<rparr>]"
  by (simp add: ripple_state_a_def handleClick_def Let_def mounted_example_def mount_def
      initial_def resizeCanvas_def requestAnimationFrame_def const_randoms_def)

theorem maxRadius_never_read_witness:
  "forget_state ripple_state_a = forget_state ripple_state_b
   \<and> map r_maxRadius (ripplesRef ripple_state_a) = [137.5]
   \<and> map r_maxRadius (ripplesRef ripple_state_b) = [100]
   \<and> map_sum id ctxCalls (run (Click 5 5 # map Frame (timestamps 3)) ripple_state_a)
     = map_sum id ctxCalls (run (Click 5 5 # map Frame (timestamps 3)) ripple_state_b)
   \<and> map_sum id ripple_trajectory (run (Click 5 5 # map Frame (timestamps 3)) ripple_state_a)
     = map_sum id ripple_trajectory (run (Click 5 5 # map Frame (timestamps 3)) ripple_state_b)"
proof -
  have eq: "forget_state ripple_state_a = forget_state ripple_state_b"
    by (simp add: forget_state_def ripple_state_b_def ripplesRef_ripple_state_a forget_maxRadius_def)
  from maxRadius_never_read [OF eq, of "Click 5 5 # map Frame (timestamps 3)"] eq
  show ?thesis
    by (simp add: ripple_state_b_def ripplesRef_ripple_state_a)
qed

section \<open>The decay scenarios in double arithmetic\<close>

text \<open>
  The constants are correctly rounded (within half a unit in the last place of a 53-bit
  mantissa). In doubles an ink particle spawned with life 1.0 has positive life after
  each of its first 49 updates and life \<open>-89 \<sqdot> 2\<^sup>-\<^sup>5\<^sup>7\<close> after the 50th; a ripple
  spawned with opacity 0.6 has positive opacity after each of its first 59 updates and
  \<open>-121 \<sqdot> 2\<^sup>-\<^sup>5\<^sup>8\<close> after the 60th: both are removed in the same frame as over
  the reals. After 10 updates life and size are within \<open>10\<^sup>-\<^sup>1\<^sup>5\<close> of 0.8 and
  \<open>4 \<sqdot> 0.98\<^sup>1\<^sup>0\<close>; the radius after 14 updates is exactly 21, and the inner ring's
  radius exactly 6.
\<close>

lemma double_constants:
  "\<bar>dval d_0_02 - 0.02\<bar> \<le> 1 / 2 ^ 59 \<and> 2 ^ 52 \<le> fst d_0_02 \<and> fst d_0_02 < 2 ^ 53"
  "\<bar>dval d_0_01 - 0.01\<bar> \<le> 1 / 2 ^ 60 \<and> 2 ^ 52 \<le> fst d_0_01 \<and> fst d_0_01 < 2 ^ 53"
  "\<bar>dval d_0_98 - 0.98\<bar> \<le> 1 / 2 ^ 54 \<and> 2 ^ 52 \<le> 4 * fst d_0_98 \<and> 4 * fst d_0_98 < 2 ^ 53"
  "\<bar>dval d_0_6 - 0.6\<bar> \<le> 1 / 2 ^ 54 \<and> 2 ^ 52 \<le> fst d_0_6 \<and> fst d_0_6 < 2 ^ 53"
  "dval d_1_5 = 1.5"
  by (simp_all add: dval_def d_0_02_def d_0_01_def d_0_98_def d_0_6_def d_1_5_def)

lemma life_trace_10: "last (life_trace 10 (1, 0)) = (900719925474099, - 50)"
  by code_simp

lemma size_trace_10: "last (size_trace 10 (1, 2)) = (7359537577266641, - 51)"
  by code_simp

lemma double_life_and_size_after_10:
  "\<bar>dval (last (life_trace 10 (1, 0))) - 0.8\<bar> < 1 / 10 ^ 15"
  "\<bar>dval (last (size_trace 10 (1, 2))) - 4 * 0.98 ^ 10\<bar> < 1 / 10 ^ 15"
  "list_all (\<lambda>l. 0 < fst l) (life_trace 10 (1, 0))"
proof -
  show "\<bar>dval (last (life_trace 10 (1, 0))) - 0.8\<bar> < 1 / 10 ^ 15"
    unfolding life_trace_10 by (simp add: dval_def)
  show "\<bar>dval (last (size_trace 10 (1, 2))) - 4 * 0.98 ^ 10\<bar> < 1 / 10 ^ 15"
    unfolding size_trace_10 by (simp add: dval_def power_divide)
  show "list_all (\<lambda>l. 0 < fst l) (life_trace 10 (1, 0))"
    by code_simp
qed

lemma double_ink_gone_at_50:
  "list_all (\<lambda>l. 0 < fst l) (life_trace 49 (1, 0))"
  "last (life_trace 50 (1, 0)) = (- 89, - 57)"
  by code_simp+

lemma double_ripple_gone_at_60:
  "list_all (\<lambda>a. 0 < fst a) (opacity_trace 59 d_0_6)"
  "last (opacity_trace 60 d_0_6) = (- 121, - 58)"
  by code_simp+

lemma double_ripple_after_14:
  "last (radius_trace 14 (0, 0)) = (21, 0)"
  "last (radius_trace 13 (0, 0)) = (39, - 1)"
  "last (opacity_trace 14 d_0_6) = (4143311657180855, - 53)"
  "dsub (21, 0) (15, 0) = (3, 1)"
  by code_simp+

section \<open>The ink scenario in double arithmetic\<close>

lemma trail_loop_double_eq:
  "n \<le> length ps \<Longrightarrow>
   trail_loop_double n ps cs =
     Inr (filter (\<lambda>p. \<not> fst (d_life p) \<le> 0) (map trail_update_double (take n ps)) @ drop n ps,
          cs @ concat (map trail_draw_double
                 (rev (filter (\<lambda>p. \<not> fst (d_life p) \<le> 0) (map trail_update_double (take n ps))))))"
proof (induction n arbitrary: ps cs)
  case 0
  then show ?case by simp
next
  case (Suc i)
  then have i: "i < length ps" by simp
  let ?p = "trail_update_double (ps ! i)"
  have tk: "take (Suc i) ps = take i ps @ [ps ! i]"
    using i by (simp add: take_Suc_conv_app_nth)
  show ?case
  proof (cases "fst (d_life ?p) \<le> 0")
    case True
    have "i \<le> length (splice1 i ps)" using i by (simp add: length_splice1)
    from Suc.IH [OF this] True i show ?thesis
      by (simp add: tk take_splice1 drop_splice1 Let_def)
  next
    case False
    have le: "i \<le> length (ps[i := ?p])" using i by simp
    have dr: "drop i (ps[i := ?p]) = ?p # drop (Suc i) ps"
      using i by (simp add: upd_conv_take_nth_drop)
    from Suc.IH [OF le] False i show ?thesis
      by (simp add: tk dr Let_def)
  qed
qed

lemma trail_loop_double_all:
  "\<exists>cs'. trail_loop_double (length ps) ps cs = Inr (trail_step_double ps, cs')"
  by (simp add: trail_loop_double_eq trail_step_double_def)

lemma trail_frames_double_eq:
  "\<exists>cs'. trail_frames_double n ps cs = Inr ((trail_step_double ^^ n) ps, cs')"
proof (induction n arbitrary: ps cs)
  case 0
  show ?case by simp
next
  case (Suc n)
  obtain cs1 where 1: "trail_loop_double (length ps) ps cs = Inr (trail_step_double ps, cs1)"
    using trail_loop_double_all by blast
  from Suc.IH [of "trail_step_double ps" cs1] 1 show ?case
    by (simp add: funpow_swap1)
qed

lemma trail_update_double_funpow:
  "(trail_update_double ^^ n) p =
     p\<lparr>d_life := life_after n (d_life p), d_size := size_after n (d_size p)\<rparr>"
proof (induction n arbitrary: p)
  case 0
  show ?case by simp
next
  case (Suc n)
  have "(trail_update_double ^^ Suc n) p = (trail_update_double ^^ n) (trail_update_double p)"
    by (simp add: funpow_swap1)
  also have "\<dots> = p\<lparr>d_life := life_after (Suc n) (d_life p), d_size := size_after (Suc n) (d_size p)\<rparr>"
    by (simp add: Suc.IH trail_update_double_def)
  finally show ?case .
qed

lemma trail_step_double_mem:
  "q \<in> set qs \<Longrightarrow> 0 < fst (d_life (trail_update_double q)) \<Longrightarrow>
   trail_update_double q \<in> set (trail_step_double qs)"
  by (simp add: trail_step_double_def)

lemma trail_funpow_double_mem:
  "p \<in> set ps \<Longrightarrow> \<forall>k. 1 \<le> k \<and> k \<le> n \<longrightarrow> 0 < fst (life_after k (d_life p)) \<Longrightarrow>
   (trail_update_double ^^ n) p \<in> set ((trail_step_double ^^ n) ps)"
proof (induction n)
  case 0
  then show ?case by simp
next
  case (Suc n)
  then have 1: "(trail_update_double ^^ n) p \<in> set ((trail_step_double ^^ n) ps)"
    by simp
  from Suc.prems(2) have "0 < fst (life_after (Suc n) (d_life p))"
    by (simp del: life_after.simps)
  then have "0 < fst (d_life ((trail_update_double ^^ Suc n) p))"
    unfolding trail_update_double_funpow by (simp del: life_after.simps)
  then have 2: "0 < fst (d_life (trail_update_double ((trail_update_double ^^ n) p)))"
    by simp
  from trail_step_double_mem [OF 1 2] show ?case by simp
qed

lemma life_after_10: "life_after 10 (1, 0) = (900719925474099, - 50)"
  by code_simp

lemma size_after_10: "size_after 10 (1, 2) = (7359537577266641, - 51)"
  by code_simp

lemma life_after_positive:
  "list_all (\<lambda>k. 0 < fst (life_after k (1, 0))) [1, 2, 3, 4, 5, 6, 7, 8, 9, 10]"
  by code_simp

lemma upto_10: "1 \<le> k \<Longrightarrow> k \<le> 10 \<Longrightarrow> k \<in> set [1, 2, 3, 4, 5, 6, 7, 8, 9, 10::nat]"
  by (simp add: numeral_eq_Suc) arith

lemma trail_funpow_double_single:
  "\<forall>k. 1 \<le> k \<and> k \<le> n \<longrightarrow> 0 < fst (life_after k (d_life p)) \<Longrightarrow>
   (trail_step_double ^^ n) [p] = [(trail_update_double ^^ n) p]"
proof (induction n)
  case 0
  show ?case by simp
next
  case (Suc n)
  then have 1: "(trail_step_double ^^ n) [p] = [(trail_update_double ^^ n) p]"
    by simp
  from Suc.prems have "0 < fst (life_after (Suc n) (d_life p))"
    by (simp del: life_after.simps)
  then have "0 < fst (d_life ((trail_update_double ^^ Suc n) p))"
    unfolding trail_update_double_funpow by (simp del: life_after.simps)
  then have 2: "\<not> fst (d_life (trail_update_double ((trail_update_double ^^ n) p))) \<le> 0"
    by simp
  have "trail_step_double [(trail_update_double ^^ n) p]
        = [trail_update_double ((trail_update_double ^^ n) p)]"
    using 2 by (simp add: trail_step_double_def)
  then show ?case
    by (simp add: 1)
qed

lemma life_after_positive_upto_10:
  assumes "1 \<le> k" and "k \<le> 10"
  shows "0 < fst (life_after k (1, 0))"
  using life_after_positive upto_10 [OF assms] unfolding list_all_iff by blast

lemma double_0_8:
  "\<bar>dval d_0_8 - 0.8\<bar> \<le> 1 / 2 ^ 54 \<and> 2 ^ 52 \<le> 2 * fst d_0_8 \<and> 2 * fst d_0_8 < 2 ^ 53"
  by (simp add: dval_def d_0_8_def)

text \<open>
  C5, as amended. An ink particle of the pool with life 1.0 and size 4 is, after the
  brush-trail loop has run in 10 frames, still in the pool, with life
  \<open>900719925474099 \<sqdot> 2\<^sup>-\<^sup>5\<^sup>0\<close> (0.7999999999999998, within \<open>10\<^sup>-\<^sup>1\<^sup>5\<close> of
  0.8) and size \<open>7359537577266641 \<sqdot> 2\<^sup>-\<^sup>5\<^sup>1\<close> (3.2682912275501868, within
  \<open>10\<^sup>-\<^sup>1\<^sup>5\<close> of \<open>4 \<sqdot> 0.98\<^sup>1\<^sup>0\<close>, which is 3.27 to two decimals).
\<close>

theorem ink_after_10_updates_double:
  assumes "p \<in> set ps" and "d_life p = (1, 0)" and "d_size p = (1, 2)"
  shows "\<exists>ps' cs'. trail_frames_double 10 ps cs = Inr (ps', cs')
           \<and> p\<lparr>d_life := (900719925474099, - 50), d_size := (7359537577266641, - 51)\<rparr> \<in> set ps'
           \<and> \<bar>dval (900719925474099, - 50) - 0.8\<bar> < 1 / 10 ^ 15
           \<and> \<bar>dval (7359537577266641, - 51) - 4 * 0.98 ^ 10\<bar> < 1 / 10 ^ 15
           \<and> \<bar>dval (7359537577266641, - 51) - 3.27\<bar> < 0.005"
proof -
  obtain cs' where run: "trail_frames_double 10 ps cs = Inr ((trail_step_double ^^ 10) ps, cs')"
    using trail_frames_double_eq by blast
  have pos: "\<forall>k. 1 \<le> k \<and> k \<le> 10 \<longrightarrow> 0 < fst (life_after k (d_life p))"
    using life_after_positive_upto_10 by (simp add: assms(2))
  have "(trail_update_double ^^ 10) p \<in> set ((trail_step_double ^^ 10) ps)"
    using assms(1) pos by (rule trail_funpow_double_mem)
  moreover have "(trail_update_double ^^ 10) p
      = p\<lparr>d_life := (900719925474099, - 50), d_size := (7359537577266641, - 51)\<rparr>"
    unfolding trail_update_double_funpow assms(2,3) life_after_10 size_after_10 ..
  moreover have "\<bar>dval (900719925474099, - 50) - 0.8\<bar> < 1 / 10 ^ 15"
    by (simp add: dval_def)
  moreover have "\<bar>dval (7359537577266641, - 51) - 4 * 0.98 ^ 10\<bar> < 1 / 10 ^ 15"
    by (simp add: dval_def power_divide)
  moreover have "\<bar>dval (7359537577266641, - 51) - 3.27\<bar> < 0.005"
    by (simp add: dval_def)
  ultimately show ?thesis using run by auto
qed

theorem ink_after_10_updates_double_witness:
  "ink_size4_double \<in> set [ink_size4_double]
   \<and> d_life ink_size4_double = (1, 0) \<and> d_size ink_size4_double = (1, 2)
   \<and> (\<exists>ps' cs'. trail_frames_double 10 [ink_size4_double] [] = Inr (ps', cs')
          \<and> ink_size4_double\<lparr>d_life := (900719925474099, - 50),
                               d_size := (7359537577266641, - 51)\<rparr> \<in> set ps')"
proof -
  have a: "ink_size4_double \<in> set [ink_size4_double]" by simp
  have b: "d_life ink_size4_double = (1, 0)" "d_size ink_size4_double = (1, 2)"
    by (simp_all add: ink_size4_double_def)
  from ink_after_10_updates_double [OF a b, of "[]"] show ?thesis
    using a b by blast
qed

text \<open>
  The claim as stated, with life equal to 0.8 and size equal to \<open>4 \<sqdot> 0.98\<^sup>1\<^sup>0\<close>,
  fails: for the pool holding that one particle, the life after the 10 frames is
  neither the real number 0.8 nor the double nearest to it, and the size is not
  \<open>4 \<sqdot> 0.98\<^sup>1\<^sup>0\<close>.
\<close>

theorem ink_life_after_10_counterexample:
  "map_sum id pool_lives_and_sizes (trail_frames_double 10 [ink_size4_double] [])
     = Inr [((900719925474099, - 50), (7359537577266641, - 51))]
   \<and> dval (900719925474099, - 50) \<noteq> 0.8
   \<and> (900719925474099, - 50) \<noteq> d_0_8
   \<and> dval (7359537577266641, - 51) \<noteq> 4 * 0.98 ^ 10"
proof -
  obtain cs' where run: "trail_frames_double 10 [ink_size4_double] []
      = Inr ((trail_step_double ^^ 10) [ink_size4_double], cs')"
    using trail_frames_double_eq by blast
  have pos: "\<forall>k. 1 \<le> k \<and> k \<le> 10 \<longrightarrow> 0 < fst (life_after k (d_life ink_size4_double))"
    using life_after_positive_upto_10 by (simp add: ink_size4_double_def)
  have "(trail_step_double ^^ 10) [ink_size4_double] = [(trail_update_double ^^ 10) ink_size4_double]"
    using pos by (rule trail_funpow_double_single)
  moreover have "d_life ((trail_update_double ^^ 10) ink_size4_double) = (900719925474099, - 50)"
    "d_size ((trail_update_double ^^ 10) ink_size4_double) = (7359537577266641, - 51)"
    unfolding trail_update_double_funpow
    by (simp_all add: ink_size4_double_def life_after_10 size_after_10 del: life_after.simps size_after.simps)
  ultimately have "map_sum id pool_lives_and_sizes (trail_frames_double 10 [ink_size4_double] [])
     = Inr [((900719925474099, - 50), (7359537577266641, - 51))]"
    by (simp add: run pool_lives_and_sizes_def)
  moreover have "dval (900719925474099, - 50) \<noteq> 0.8"
    by (simp add: dval_def)
  moreover have "(900719925474099, - 50) \<noteq> d_0_8"
    by (simp add: d_0_8_def)
  moreover have "dval (7359537577266641, - 51) \<noteq> 4 * 0.98 ^ 10"
    by (simp add: dval_def power_divide)
  ultimately show ?thesis by blast
qed

section \<open>A frame without a drawing surface, as the code has it\<close>

lemma run_callbacks_skip:
  assumes "canvasRef s = None \<or> (\<exists>c. canvasRef s = Some c \<and> \<not> c_context c)"
  shows "run_callbacks hs time s = Inr s"
  by (induction hs) (simp_all add: animate_skip [OF assms])

lemma run_frames_skip:
  assumes "canvasRef s = None \<or> (\<exists>c. canvasRef s = Some c \<and> \<not> c_context c)"
  shows "run (map Frame ts) (s\<lparr>rafQueue := []\<rparr>) = Inr (s\<lparr>rafQueue := []\<rparr>)"
  by (induction ts) simp_all

lemma pools_bounded_mount: "pools_bounded (mount (initial c w h R))"
  by (simp add: pools_bounded_def mount_def initial_def Let_def resizeCanvas_def
      requestAnimationFrame_def split: option.split)

text \<open>
  C3, as amended. When the canvas or its 2D context is unavailable at a tick, the tick
  is skipped as a no-op: \<open>animate\<close> returns the state it was given, so no pool,
  pointer or counter is mutated and no error is raised. The guard returns before the
  request for the next frame, so the skipped tick schedules no further tick: whatever
  callbacks were pending are consumed, and the frames after it call nothing. A
  component mounted on a canvas with a 2D context never gets there: after any events
  the canvas and its context are still there and one frame callback is pending.
\<close>

theorem unavailable_surface_skips_and_stops:
  "(canvasRef s = None \<or> (\<exists>c. canvasRef s = Some c \<and> \<not> c_context c) \<longrightarrow>
      animate time s = Inr s
    \<and> run (Frame time # map Frame ts) s = Inr (s\<lparr>rafQueue := []\<rparr>))
   \<and> (c_context c0 \<longrightarrow>
        (\<exists>s'. run evs (mount (initial (Some c0) w h R)) = Inr s' \<and> ready s'))"
proof (intro conjI impI)
  assume no: "canvasRef s = None \<or> (\<exists>c. canvasRef s = Some c \<and> \<not> c_context c)"
  show "animate time s = Inr s"
    using no by (rule animate_skip)
  have no': "canvasRef (s\<lparr>rafQueue := []\<rparr>) = None
             \<or> (\<exists>c. canvasRef (s\<lparr>rafQueue := []\<rparr>) = Some c \<and> \<not> c_context c)"
    using no by simp
  have "step (Frame time) s = Inr (s\<lparr>rafQueue := []\<rparr>)"
    by (simp add: run_callbacks_skip [OF no'])
  then show "run (Frame time # map Frame ts) s = Inr (s\<lparr>rafQueue := []\<rparr>)"
    by (simp add: run_frames_skip [OF no])
next
  assume "c_context c0"
  then have "ready (mount (initial (Some c0) w h R))"
    by (rule ready_mount)
  from run_inv [OF this pools_bounded_mount, of evs]
  show "\<exists>s'. run evs (mount (initial (Some c0) w h R)) = Inr s' \<and> ready s'"
    by blast
qed

theorem unavailable_surface_skips_and_stops_witness:
  "canvasRef no_surface_example = None
   \<and> animate 16 no_surface_example = Inr no_surface_example
   \<and> run (Frame 16 # map Frame (timestamps 2)) no_surface_example
       = Inr (no_surface_example\<lparr>rafQueue := []\<rparr>)
   \<and> c_context canvas_800_600
   \<and> (\<exists>s'. run [MouseMove 10 20, Frame 16, Click 100 100, Frame 32] mounted_example = Inr s'
          \<and> ready s')"
  using unavailable_surface_skips_and_stops [of no_surface_example 16 "timestamps 2"
      canvas_800_600 "[MouseMove 10 20, Frame 16, Click 100 100, Frame 32]" 800 600
      "const_randoms 0.75"]
  by (simp add: no_surface_example_simps mounted_example_def canvas_800_600_def)

end
